theory Spec2Isabelle
  imports Main "HOL-Library.AList" "HOL-Library.Char_ord" "HOL-Library.List_Lexorder"
    "HOL-Library.Sublist"
begin

section \<open>Python strings and builtins used by parser.py\<close>

text \<open>
  A Python \<^verbatim>\<open>str\<close> is modelled as a HOL \<^typ>\<open>string\<close>, each \<^typ>\<open>char\<close> standing for
  one code point below 256. Code points above 255 are outside the model. The builtins
  below follow CPython: \<^verbatim>\<open>str.isspace\<close>, \<^verbatim>\<open>str.lstrip\<close>, \<^verbatim>\<open>str.rstrip\<close>,
  \<^verbatim>\<open>str.expandtabs\<close>, \<^verbatim>\<open>str.splitlines\<close>, \<^verbatim>\<open>str.join\<close>, \<^verbatim>\<open>str(int)\<close>,
  \<^verbatim>\<open>int(str)\<close> and slicing with non-negative bounds.
\<close>

definition isspace :: "char \<Rightarrow> bool" where
  "isspace c \<longleftrightarrow> c \<in> set [CHR 0x09, CHR 0x0A, CHR 0x0B, CHR 0x0C, CHR 0x0D,
     CHR 0x1C, CHR 0x1D, CHR 0x1E, CHR 0x1F, CHR 0x20, CHR 0x85, CHR 0xA0]"

definition lstrip :: "string \<Rightarrow> string" where
  "lstrip s = dropWhile isspace s"

definition rstrip :: "string \<Rightarrow> string" where
  "rstrip s = rev (dropWhile isspace (rev s))"

text \<open>\<^verbatim>\<open>s.expandtabs()\<close> with the default tab size 8: the column restarts after a line
  feed or a carriage return only.\<close>

fun expandtabs_from :: "nat \<Rightarrow> string \<Rightarrow> string" where
  "expandtabs_from j [] = []"
| "expandtabs_from j (c # cs) =
     (if c = CHR 0x09
      then replicate (8 - j mod 8) (CHR 0x20) @ expandtabs_from (j + (8 - j mod 8)) cs
      else c # expandtabs_from (if c = CHR 0x0A \<or> c = CHR 0x0D then 0 else j + 1) cs)"

definition expandtabs :: "string \<Rightarrow> string" where
  "expandtabs s = expandtabs_from 0 s"

text \<open>\<^verbatim>\<open>s.splitlines()\<close>: the line boundaries below code point 256, a carriage return
  followed by a line feed counting once; no empty last line.\<close>

definition is_linebreak :: "char \<Rightarrow> bool" where
  "is_linebreak c \<longleftrightarrow> c \<in> set [CHR 0x0A, CHR 0x0B, CHR 0x0C, CHR 0x0D,
     CHR 0x1C, CHR 0x1D, CHR 0x1E, CHR 0x85]"

fun splitlines_from :: "string \<Rightarrow> string \<Rightarrow> string list" where
  "splitlines_from cur [] = (if cur = [] then [] else [cur])"
| "splitlines_from cur [c] =
     (if is_linebreak c then [cur] else [cur @ [c]])"
| "splitlines_from cur (c # d # cs) =
     (if c = CHR 0x0D \<and> d = CHR 0x0A then cur # splitlines_from [] cs
      else if is_linebreak c then cur # splitlines_from [] (d # cs)
      else splitlines_from (cur @ [c]) (d # cs))"

definition splitlines :: "string \<Rightarrow> string list" where
  "splitlines s = splitlines_from [] s"

text \<open>\<^verbatim>\<open>sep.join(xs)\<close>.\<close>

fun py_join :: "string \<Rightarrow> string list \<Rightarrow> string" where
  "py_join sep [] = []"
| "py_join sep [x] = x"
| "py_join sep (x # y # ys) = x @ sep @ py_join sep (y # ys)"

text \<open>\<^verbatim>\<open>s[a:b]\<close> and \<^verbatim>\<open>s[a:]\<close> for offsets \<open>a, b \<ge> 0\<close>: out-of-range bounds are
  clipped and \<open>b \<le> a\<close> gives the empty string, which \<^const>\<open>take\<close> and \<^const>\<open>drop\<close> on
  natural numbers do as well.\<close>

definition slice :: "string \<Rightarrow> nat \<Rightarrow> nat \<Rightarrow> string" where
  "slice s a b = take (b - a) (drop a s)"

definition slice_from :: "string \<Rightarrow> nat \<Rightarrow> string" where
  "slice_from s a = drop a s"

text \<open>\<^verbatim>\<open>str(n)\<close> for an integer: decimal digits, with a minus sign when negative.\<close>

definition digit_char :: "nat \<Rightarrow> char" where
  "digit_char d = ''0123456789'' ! (d mod 10)"

fun str_nat :: "nat \<Rightarrow> string" where
  "str_nat n = (if n < 10 then [digit_char n] else str_nat (n div 10) @ [digit_char (n mod 10)])"

declare str_nat.simps [simp del]

definition str_int :: "int \<Rightarrow> string" where
  "str_int i = (if i < 0 then CHR ''-'' # str_nat (nat (- i)) else str_nat (nat i))"

text \<open>The exception \<^verbatim>\<open>UnexpectedInput\<close> of lark, which the module only passes on: the
  offset of the failure and the names of the terminals the parser expected there.\<close>

datatype UnexpectedInput = UnexpectedInput (pos_in_stream: nat) (expected: "string list")

text \<open>Modelled from the spec: the classes \<^verbatim>\<open>StackContext\<close> and
  \<^verbatim>\<open>LarkUnexpectedInputContext\<close> of \<^verbatim>\<open>error_contexts.py\<close>, which parser.py constructs
  from a context, and from the text, the exception and the terminal descriptions.
  \<open>CallerContext\<close> stands for any context a caller supplies.\<close>

datatype ErrorContext =
    CallerContext string
  | StackContext ErrorContext ErrorContext
  | LarkUnexpectedInputContext string UnexpectedInput "(string \<times> string) list"

text \<open>The exceptions of the module, as values: the builtin ones, and (modelled from the
  spec: the classes of \<^verbatim>\<open>exceptions.py\<close>) the specification-parse failure and the
  documentation-parse failure, each carrying an error context. \<open>IllTyped\<close> is not a Python
  exception: it stands for a parse tree whose node kind names a handler that returns a
  value of another type than the annotation at the call site (the grammars never produce
  one).\<close>

datatype error =
    AssertionError
  | ValueError
  | TypeError
  | AttributeError
  | KeyError
  | IllTyped
  | SpecificationParseError ErrorContext
  | DocstringParseError ErrorContext

text \<open>\<^verbatim>\<open>int(s)\<close> on a string: surrounding whitespace is stripped, one sign is allowed,
  then decimal digits, single underscores allowed between digits. The whitespace that
  \<^verbatim>\<open>int\<close> strips is the ASCII whitespace of C (tab, line feed, vertical tab, form feed,
  carriage return, space) and the spaces beyond ASCII (below 256: 0x85 and 0xA0); the
  separators 0x1C to 0x1F are not stripped, and \<^verbatim>\<open>int\<close> fails on them.\<close>

definition int_isspace :: "char \<Rightarrow> bool" where
  "int_isspace c \<longleftrightarrow> c \<in> set [CHR 0x09, CHR 0x0A, CHR 0x0B, CHR 0x0C, CHR 0x0D, CHR 0x20,
     CHR 0x85, CHR 0xA0]"

definition int_strip :: "string \<Rightarrow> string" where
  "int_strip s = rev (dropWhile int_isspace (rev (dropWhile int_isspace s)))"

definition is_digit :: "char \<Rightarrow> bool" where
  "is_digit c \<longleftrightarrow> c \<in> set ''0123456789''"

definition digit_val :: "char \<Rightarrow> nat" where
  "digit_val c = of_char c - 48"

fun int_digits :: "nat \<Rightarrow> string \<Rightarrow> error + nat" where
  "int_digits acc [] = Inr acc"
| "int_digits acc [c] = (if is_digit c then Inr (10 * acc + digit_val c) else Inl ValueError)"
| "int_digits acc (c # d # cs) =
     (if is_digit c then int_digits (10 * acc + digit_val c) (d # cs)
      else if c = CHR ''_'' \<and> is_digit d then int_digits (10 * acc + digit_val d) cs
      else Inl ValueError)"

definition int_unsigned :: "string \<Rightarrow> error + nat" where
  "int_unsigned s =
     (case s of [] \<Rightarrow> Inl ValueError
      | c # cs \<Rightarrow> if is_digit c then int_digits (digit_val c) cs else Inl ValueError)"

definition py_int :: "string \<Rightarrow> error + int" where
  "py_int s =
     (case int_strip s of
        [] \<Rightarrow> Inl ValueError
      | c # cs \<Rightarrow>
          if c = CHR ''-'' then map_sum id (\<lambda>n. - int n) (int_unsigned cs)
          else if c = CHR ''+'' then map_sum id int (int_unsigned cs)
          else map_sum id int (int_unsigned (c # cs)))"

section \<open>Parse trees of the grammar engine\<close>

text \<open>
  A lark \<^verbatim>\<open>Tree\<close> has a rule name \<^verbatim>\<open>data\<close>, children that are trees or tokens, and
  \<^verbatim>\<open>meta\<close>. With \<^verbatim>\<open>propagate_positions=True\<close> the meta of a tree that spans at least
  one token carries \<^verbatim>\<open>start_pos\<close> and \<^verbatim>\<open>end_pos\<close>; the meta of an empty tree has
  neither attribute. A \<^verbatim>\<open>Token\<close> is a string (its \<^verbatim>\<open>value\<close>).
\<close>

datatype meta = Meta (start_pos: nat) (end_pos: nat) | EmptyMeta

datatype node = Tree string "node list" meta | Token string

fun is_Tree :: "node \<Rightarrow> bool" where
  "is_Tree (Tree d cs m) = True"
| "is_Tree (Token v) = False"

text \<open>\<^verbatim>\<open>_tree_children\<close> and \<^verbatim>\<open>_token_children\<close>, on the list \<^verbatim>\<open>tree.children\<close>.\<close>

definition tree_children :: "node list \<Rightarrow> node list" where
  "tree_children cs = filter is_Tree cs"

fun token_children :: "node list \<Rightarrow> string list" where
  "token_children [] = []"
| "token_children (Token v # cs) = v # token_children cs"
| "token_children (Tree d ts m # cs) = token_children cs"

section \<open>The data model (argument_ref.py and specs.py)\<close>

text \<open>Modelled from the spec: the classes of \<^verbatim>\<open>argument_ref.py\<close> and \<^verbatim>\<open>specs.py\<close>, which
  parser.py imports and constructs. The constructors take their arguments in the order of
  the calls in parser.py.\<close>

datatype ArgumentRef =
    RootArgumentRef string
  | AttributeArgumentRef ArgumentRef string
  | IndexArgumentRef ArgumentRef int

text \<open>Modelled from the spec: \<^verbatim>\<open>ArgumentRef.root_argument_name\<close> of \<^verbatim>\<open>argument_ref.py\<close>,
  "the name carried by that Root" at which the chain of references ends.\<close>

fun root_argument_name :: "ArgumentRef \<Rightarrow> string" where
  "root_argument_name (RootArgumentRef name) = name"
| "root_argument_name (AttributeArgumentRef source attribute_name) = root_argument_name source"
| "root_argument_name (IndexArgumentRef source index) = root_argument_name source"

text \<open>Modelled from the spec: \<^verbatim>\<open>RESULT_TOKEN\<close> of \<^verbatim>\<open>argument_ref.py\<close>, the reserved name
  of the return value, written \<^verbatim>\<open>return\<close> in a shape specification.\<close>

definition RESULT_TOKEN :: string where
  "RESULT_TOKEN = ''return''"

record ParsedDimensionSpec =
  "constant" :: "int option"
  variable_name :: "string option"
  variable_rank :: bool

datatype ParsedShapeSpec = ParsedShapeSpec (dims: "ParsedDimensionSpec list")

datatype ParsedArgumentSpec =
  ParsedArgumentSpec (argument_ref: ArgumentRef) (shape: ParsedShapeSpec)

section \<open>The model builder: class \_ParseArgumentSpec\<close>

text \<open>
  \<^verbatim>\<open>_TreeVisitor.visit\<close> looks the node kind up as a method name and calls the method
  with the arguments of the call site. The handlers of \<^verbatim>\<open>_ParseArgumentSpec\<close> are listed
  by the number of arguments they take after the tree. At a call site that passes \<open>k\<close>
  arguments, a name that is no handler fails the assertion of \<^verbatim>\<open>visit\<close>, a handler of
  another arity raises \<^verbatim>\<open>TypeError\<close>, and a handler of arity \<open>k\<close> whose result has
  another type than the call site expects is \<^const>\<open>IllTyped\<close>. A token in the place of a
  tree has no attribute \<^verbatim>\<open>data\<close>. The attributes of a visitor that are not handlers
  (\<^verbatim>\<open>visit\<close> itself, the private fields and helpers, what \<^verbatim>\<open>object\<close> provides) are
  no rule names of the two grammars; they count as names without a handler.
\<close>

definition parse_handlers :: "nat \<Rightarrow> string list" where
  "parse_handlers k =
     (if k = 0 then [''argument_spec'', ''argument_name'', ''dimension_specs'',
        ''dimension_spec_constant'', ''dimension_spec_variable'', ''dimension_spec_anonymous'',
        ''dimension_spec_variable_rank'', ''dimension_spec_anonymous_variable_rank'']
      else if k = 1 then [''argument_refs'', ''argument_ref_attribute'', ''argument_ref_index'',
        ''shape_spec'']
      else [])"

definition parse_other_handler :: "nat \<Rightarrow> string \<Rightarrow> error" where
  "parse_other_handler k name =
     (if name \<in> set (parse_handlers k) then IllTyped
      else if name \<in> set (parse_handlers (1 - k)) then TypeError
      else AssertionError)"

fun map_err :: "('a \<Rightarrow> error + 'b) \<Rightarrow> 'a list \<Rightarrow> error + 'b list" where
  "map_err f [] = Inr []"
| "map_err f (x # xs) =
     (case f x of
        Inl e \<Rightarrow> Inl e
      | Inr y \<Rightarrow> (case map_err f xs of Inl e \<Rightarrow> Inl e | Inr ys \<Rightarrow> Inr (y # ys)))"

fun argument_name :: "node \<Rightarrow> error + ArgumentRef" where
  "argument_name (Token v) = Inl AttributeError"
| "argument_name (Tree d cs m) =
     (case token_children cs of
        [token] \<Rightarrow> Inr (RootArgumentRef token)
      | _ \<Rightarrow> Inl ValueError)"

fun argument_ref_attribute :: "node \<Rightarrow> ArgumentRef \<Rightarrow> error + ArgumentRef" where
  "argument_ref_attribute (Token v) source = Inl AttributeError"
| "argument_ref_attribute (Tree d cs m) source =
     (case token_children cs of
        [token] \<Rightarrow> Inr (AttributeArgumentRef source token)
      | _ \<Rightarrow> Inl ValueError)"

fun argument_ref_index :: "node \<Rightarrow> ArgumentRef \<Rightarrow> error + ArgumentRef" where
  "argument_ref_index (Token v) source = Inl AttributeError"
| "argument_ref_index (Tree d cs m) source =
     (case token_children cs of
        [token] \<Rightarrow>
          (case py_int token of
             Inl e \<Rightarrow> Inl e
           | Inr i \<Rightarrow> Inr (IndexArgumentRef source i))
      | _ \<Rightarrow> Inl ValueError)"

lemma size_tree_children_le: "size_list size (tree_children cs) \<le> size_list size cs"
  unfolding tree_children_def by (induction cs) auto

function visit_argument_ref :: "node \<Rightarrow> ArgumentRef \<Rightarrow> error + ArgumentRef"
  and argument_refs :: "node \<Rightarrow> ArgumentRef \<Rightarrow> error + ArgumentRef"
  and argument_refs_loop :: "node list \<Rightarrow> ArgumentRef \<Rightarrow> error + ArgumentRef"
where
  "visit_argument_ref (Token v) result = Inl AttributeError"
| "visit_argument_ref (Tree name cs m) result =
     (if name = ''argument_refs'' then argument_refs (Tree name cs m) result
      else if name = ''argument_ref_attribute'' then argument_ref_attribute (Tree name cs m) result
      else if name = ''argument_ref_index'' then argument_ref_index (Tree name cs m) result
      else Inl (parse_other_handler 1 name))"
| "argument_refs (Token v) result = Inl AttributeError"
| "argument_refs (Tree d cs m) result = argument_refs_loop (tree_children cs) result"
| "argument_refs_loop [] result = Inr result"
| "argument_refs_loop (child # rest) result =
     (case visit_argument_ref child result of
        Inl e \<Rightarrow> Inl e
      | Inr result' \<Rightarrow> argument_refs_loop rest result')"
  by pat_completeness auto
termination
proof (relation "measure (\<lambda>x. case x of
    Inl (t, r) \<Rightarrow> 2 * size t + 1
  | Inr (Inl (t, r)) \<Rightarrow> 2 * size t
  | Inr (Inr (cs, r)) \<Rightarrow> 2 * size_list size cs + 1)", goal_cases)
  case (3 d cs m result)
  then show ?case
    using size_tree_children_le [of cs] by simp
qed simp_all

fun dimension_spec_constant :: "node \<Rightarrow> error + ParsedDimensionSpec" where
  "dimension_spec_constant (Token v) = Inl AttributeError"
| "dimension_spec_constant (Tree d cs m) =
     (case token_children cs of
        [token] \<Rightarrow>
          (case py_int token of
             Inl e \<Rightarrow> Inl e
           | Inr i \<Rightarrow> Inr \<lparr>constant = Some i, variable_name = None, variable_rank = False\<rparr>)
      | _ \<Rightarrow> Inl ValueError)"

fun dimension_spec_variable :: "node \<Rightarrow> error + ParsedDimensionSpec" where
  "dimension_spec_variable (Token v) = Inl AttributeError"
| "dimension_spec_variable (Tree d cs m) =
     (case token_children cs of
        [token] \<Rightarrow> Inr \<lparr>constant = None, variable_name = Some token, variable_rank = False\<rparr>
      | _ \<Rightarrow> Inl ValueError)"

definition dimension_spec_anonymous :: "node \<Rightarrow> error + ParsedDimensionSpec" where
  "dimension_spec_anonymous tree =
     Inr \<lparr>constant = None, variable_name = None, variable_rank = False\<rparr>"

fun dimension_spec_variable_rank :: "node \<Rightarrow> error + ParsedDimensionSpec" where
  "dimension_spec_variable_rank (Token v) = Inl AttributeError"
| "dimension_spec_variable_rank (Tree d cs m) =
     (case token_children cs of
        [token1, token2] \<Rightarrow>
          if token1 = ''*''
          then Inr \<lparr>constant = None, variable_name = Some token2, variable_rank = True\<rparr>
          else if token2 = ''...''
          then Inr \<lparr>constant = None, variable_name = Some token1, variable_rank = True\<rparr>
          else Inl AssertionError
      | _ \<Rightarrow> Inl ValueError)"

definition dimension_spec_anonymous_variable_rank :: "node \<Rightarrow> error + ParsedDimensionSpec" where
  "dimension_spec_anonymous_variable_rank tree =
     Inr \<lparr>constant = None, variable_name = None, variable_rank = True\<rparr>"

fun visit_dimension_spec :: "node \<Rightarrow> error + ParsedDimensionSpec" where
  "visit_dimension_spec (Token v) = Inl AttributeError"
| "visit_dimension_spec (Tree name cs m) =
     (if name = ''dimension_spec_constant'' then dimension_spec_constant (Tree name cs m)
      else if name = ''dimension_spec_variable'' then dimension_spec_variable (Tree name cs m)
      else if name = ''dimension_spec_anonymous'' then dimension_spec_anonymous (Tree name cs m)
      else if name = ''dimension_spec_variable_rank''
        then dimension_spec_variable_rank (Tree name cs m)
      else if name = ''dimension_spec_anonymous_variable_rank''
        then dimension_spec_anonymous_variable_rank (Tree name cs m)
      else Inl (parse_other_handler 0 name))"

fun dimension_specs :: "node \<Rightarrow> error + ParsedDimensionSpec list" where
  "dimension_specs (Token v) = Inl AttributeError"
| "dimension_specs (Tree d cs m) = map_err visit_dimension_spec (tree_children cs)"

fun visit_dimension_specs :: "node \<Rightarrow> error + ParsedDimensionSpec list" where
  "visit_dimension_specs (Token v) = Inl AttributeError"
| "visit_dimension_specs (Tree name cs m) =
     (if name = ''dimension_specs'' then dimension_specs (Tree name cs m)
      else Inl (parse_other_handler 0 name))"

fun shape_spec :: "node \<Rightarrow> ArgumentRef \<Rightarrow> error + ParsedShapeSpec" where
  "shape_spec (Token v) ref = Inl AttributeError"
| "shape_spec (Tree d cs m) ref =
     (case tree_children cs of
        [dimension_specs_node] \<Rightarrow>
          (case visit_dimension_specs dimension_specs_node of
             Inl e \<Rightarrow> Inl e
           | Inr ds \<Rightarrow> Inr (ParsedShapeSpec ds))
      | _ \<Rightarrow> Inl ValueError)"

fun visit_shape_spec :: "node \<Rightarrow> ArgumentRef \<Rightarrow> error + ParsedShapeSpec" where
  "visit_shape_spec (Token v) ref = Inl AttributeError"
| "visit_shape_spec (Tree name cs m) ref =
     (if name = ''shape_spec'' then shape_spec (Tree name cs m) ref
      else Inl (parse_other_handler 1 name))"

fun visit_argument_name :: "node \<Rightarrow> error + ArgumentRef" where
  "visit_argument_name (Token v) = Inl AttributeError"
| "visit_argument_name (Tree name cs m) =
     (if name = ''argument_name'' then argument_name (Tree name cs m)
      else Inl (parse_other_handler 0 name))"

fun argument_spec :: "node \<Rightarrow> error + ParsedArgumentSpec" where
  "argument_spec (Token v) = Inl AttributeError"
| "argument_spec (Tree d cs m) =
     (case tree_children cs of
        [argument_name_node, argument_refs_node, shape_spec_node] \<Rightarrow>
          (case visit_argument_name argument_name_node of
             Inl e \<Rightarrow> Inl e
           | Inr root_argument_ref \<Rightarrow>
               (case visit_argument_ref argument_refs_node root_argument_ref of
                  Inl e \<Rightarrow> Inl e
                | Inr ref \<Rightarrow>
                    (case visit_shape_spec shape_spec_node ref of
                       Inl e \<Rightarrow> Inl e
                     | Inr sh \<Rightarrow> Inr (ParsedArgumentSpec ref sh))))
      | _ \<Rightarrow> Inl ValueError)"

text \<open>\<^verbatim>\<open>_ParseArgumentSpec().visit(tree)\<close> at the entry point, whose result is annotated
  \<^verbatim>\<open>ParsedArgumentSpec\<close>.\<close>

fun visit_argument_spec :: "node \<Rightarrow> error + ParsedArgumentSpec" where
  "visit_argument_spec (Token v) = Inl AttributeError"
| "visit_argument_spec (Tree name cs m) =
     (if name = ''argument_spec'' then argument_spec (Tree name cs m)
      else Inl (parse_other_handler 0 name))"

section \<open>The docstring rewriter: class \_RewritedocString\<close>

text \<open>The object: \<^verbatim>\<open>_source\<close>, \<^verbatim>\<open>_spec_lines\<close> (a dict, read with \<^verbatim>\<open>get\<close> only) and
  \<^verbatim>\<open>_indent\<close>.\<close>

record RewritedocString =
  source :: string
  spec_lines :: "string \<rightharpoonup> string list"
  indent :: "int option"

fun shape_spec_to_sphinx_loop :: "ParsedDimensionSpec list \<Rightarrow> string list \<Rightarrow> string list" where
  "shape_spec_to_sphinx_loop [] out = out"
| "shape_spec_to_sphinx_loop (dim # rest) out =
     (case constant dim of
        Some c \<Rightarrow> shape_spec_to_sphinx_loop rest (out @ [str_int c])
      | None \<Rightarrow>
          (case variable_name dim of
             Some name \<Rightarrow>
               (let suffix = (if variable_rank dim then ''...'' else [])
                in shape_spec_to_sphinx_loop rest (out @ [''*'' @ name @ ''*'' @ suffix]))
           | None \<Rightarrow>
               shape_spec_to_sphinx_loop rest
                 (out @ [if variable_rank dim then ''...'' else ''.''])))"

definition shape_spec_to_sphinx :: "ParsedShapeSpec \<Rightarrow> string" where
  "shape_spec_to_sphinx sh = py_join '', '' (shape_spec_to_sphinx_loop (dims sh) [])"

text \<open>\<^verbatim>\<open>repr(argument_spec.argument_ref)\<close> is defined in \<^verbatim>\<open>argument_ref.py\<close>; the display
  form of a reference is the parameter \<open>repr\<close> of the functions that need it. Where an
  example below needs one, \<^const>\<open>root_argument_name\<close> is passed: it displays a root
  reference as its name, as the example line of the specification does.\<close>

definition argument_spec_to_sphinx :: "(ArgumentRef \<Rightarrow> string) \<Rightarrow> ParsedArgumentSpec \<Rightarrow> string" where
  "argument_spec_to_sphinx repr spec =
     concat [''* **'' @ repr (argument_ref spec) @ ''**'', '' has shape ['',
       shape_spec_to_sphinx (shape spec), ''].'']"

fun argument_specs_to_sphinx_loop ::
  "(ArgumentRef \<Rightarrow> string) \<Rightarrow> ParsedArgumentSpec list \<Rightarrow> (string \<rightharpoonup> string list)
     \<Rightarrow> (string \<rightharpoonup> string list)" where
  "argument_specs_to_sphinx_loop repr [] result = result"
| "argument_specs_to_sphinx_loop repr (spec # rest) result =
     (let name = root_argument_name (argument_ref spec);
          old = (case result name of None \<Rightarrow> [] | Some ls \<Rightarrow> ls)
      in argument_specs_to_sphinx_loop repr rest
           (result(name \<mapsto> old @ [argument_spec_to_sphinx repr spec])))"

definition argument_specs_to_sphinx ::
  "(ArgumentRef \<Rightarrow> string) \<Rightarrow> ParsedArgumentSpec list \<Rightarrow> (string \<rightharpoonup> string list)" where
  "argument_specs_to_sphinx repr argument_specs =
     (\<lambda>name. map_option sort (argument_specs_to_sphinx_loop repr argument_specs Map.empty name))"

definition no_indent :: int where
  "no_indent = - 1"

fun guess_indent_loop :: "string list \<Rightarrow> int \<Rightarrow> int" where
  "guess_indent_loop [] ind = ind"
| "guess_indent_loop (line # rest) ind =
     (let stripped = lstrip line
      in if stripped = [] then guess_indent_loop rest ind
         else (let line_indent = int (length line) - int (length stripped)
               in if ind = no_indent \<or> line_indent < ind
                  then guess_indent_loop rest line_indent
                  else guess_indent_loop rest ind))"

definition guess_indent :: "string \<Rightarrow> int option" where
  "guess_indent docstr =
     (let lines = splitlines (expandtabs docstr);
          ind = guess_indent_loop (tl lines) no_indent
      in if ind \<noteq> no_indent then Some ind else None)"

text \<open>\<^verbatim>\<open>_RewritedocString.__init__\<close>.\<close>

definition init ::
  "(ArgumentRef \<Rightarrow> string) \<Rightarrow> string \<Rightarrow> ParsedArgumentSpec list \<Rightarrow> RewritedocString" where
  "init repr src argument_specs =
     \<lparr>source = src,
      spec_lines = argument_specs_to_sphinx repr argument_specs,
      indent = guess_indent src\<rparr>"

fun insert_spec_lines_loop :: "string \<Rightarrow> string list \<Rightarrow> string list \<Rightarrow> string list" where
  "insert_spec_lines_loop indent_str [] out = out"
| "insert_spec_lines_loop indent_str (spec_line # rest) out =
     insert_spec_lines_loop indent_str rest ((out @ [indent_str]) @ [spec_line])"

text \<open>\<^verbatim>\<open>n * " "\<close> is empty for \<open>n \<le> 0\<close>. The list \<^verbatim>\<open>out\<close> is mutated in place in the
  source; here it is returned with the new position.\<close>

fun insert_spec_lines ::
  "RewritedocString \<Rightarrow> string list \<Rightarrow> nat \<Rightarrow> string list \<Rightarrow> node
     \<Rightarrow> error + (string list \<times> nat)" where
  "insert_spec_lines self out pos lines (Token v) = Inl AttributeError"
| "insert_spec_lines self out pos lines (Tree d cs EmptyMeta) = Inl AttributeError"
| "insert_spec_lines self out pos lines (Tree d cs (Meta docs_start_pos docs_end_pos)) =
     (let leading_str = rstrip (slice (source self) pos docs_start_pos);
          docs_start = pos + length leading_str;
          docs_str = slice (source self) docs_start docs_end_pos;
          trailing_str = lstrip docs_str;
          docs_indent =
            (case guess_indent docs_str of
               Some i \<Rightarrow> i
             | None \<Rightarrow> (case indent self of None \<Rightarrow> 4 | Some i \<Rightarrow> i + 4));
          indent_str = CHR 0x0A # replicate (nat docs_indent) (CHR 0x20);
          out1 = out @ [leading_str];
          out2 = insert_spec_lines_loop indent_str lines out1;
          out3 = ((out2 @ [[CHR 0x0A]]) @ [indent_str]) @ [trailing_str]
      in Inr (out3, docs_end_pos))"

fun info_field_returns ::
  "RewritedocString \<Rightarrow> node \<Rightarrow> string list \<Rightarrow> nat \<Rightarrow> error + (string list \<times> nat)" where
  "info_field_returns self (Token v) out pos = Inl AttributeError"
| "info_field_returns self (Tree d cs m) out pos =
     (case tree_children cs of
        [docs] \<Rightarrow>
          (case spec_lines self RESULT_TOKEN of
             None \<Rightarrow> Inr (out, pos)
           | Some lines \<Rightarrow>
               if lines \<noteq> [] then insert_spec_lines self out pos lines docs
               else Inr (out, pos))
      | _ \<Rightarrow> Inl ValueError)"

definition info_field_other ::
  "RewritedocString \<Rightarrow> node \<Rightarrow> string list \<Rightarrow> nat \<Rightarrow> error + (string list \<times> nat)" where
  "info_field_other self tree out pos = Inr (out, pos)"

fun info_field_args :: "node \<Rightarrow> error + string" where
  "info_field_args (Token v) = Inl AttributeError"
| "info_field_args (Tree d cs m) =
     (let tokens = token_children cs
      in if tokens = [] then Inr [] else Inr (last tokens))"

text \<open>The handlers of \<^verbatim>\<open>_RewritedocString\<close>: two take the tree alone and return a string,
  four take \<^verbatim>\<open>out\<close> and \<^verbatim>\<open>pos\<close> as well and return the new position.\<close>

definition rewrite_other_handler :: "nat \<Rightarrow> string \<Rightarrow> error" where
  "rewrite_other_handler k name =
     (if name \<in> set [''docstring'', ''info_field_args'']
      then (if k = 0 then IllTyped else TypeError)
      else if name \<in> set [''info_fields'', ''info_field_param'', ''info_field_returns'',
        ''info_field_other'']
      then (if k = 2 then IllTyped else TypeError)
      else AssertionError)"

lemma size_tree_child_less:
  "x \<in> set (tree_children cs) \<Longrightarrow> size x < Suc (size_list size cs)"
  unfolding tree_children_def by (induction cs) (auto split: if_splits)

function visit_str :: "RewritedocString \<Rightarrow> node \<Rightarrow> error + string"
  and docstring :: "RewritedocString \<Rightarrow> node \<Rightarrow> error + string"
  and visit_pos ::
    "RewritedocString \<Rightarrow> node \<Rightarrow> string list \<Rightarrow> nat \<Rightarrow> error + (string list \<times> nat)"
  and info_fields ::
    "RewritedocString \<Rightarrow> node \<Rightarrow> string list \<Rightarrow> nat \<Rightarrow> error + (string list \<times> nat)"
  and info_fields_loop ::
    "RewritedocString \<Rightarrow> node list \<Rightarrow> string list \<Rightarrow> nat \<Rightarrow> error + (string list \<times> nat)"
  and info_field_param ::
    "RewritedocString \<Rightarrow> node \<Rightarrow> string list \<Rightarrow> nat \<Rightarrow> error + (string list \<times> nat)"
where
  "visit_str self (Token v) = Inl AttributeError"
| "visit_str self (Tree name cs m) =
     (if name = ''docstring'' then docstring self (Tree name cs m)
      else if name = ''info_field_args'' then info_field_args (Tree name cs m)
      else Inl (rewrite_other_handler 0 name))"
| "docstring self (Token v) = Inl AttributeError"
| "docstring self (Tree d cs m) =
     (case tree_children cs of
        [docs, info_fields_node] \<Rightarrow>
          (case visit_pos self info_fields_node [] 0 of
             Inl e \<Rightarrow> Inl e
           | Inr (out, pos) \<Rightarrow> Inr (concat (out @ [slice_from (source self) pos])))
      | _ \<Rightarrow> Inl ValueError)"
| "visit_pos self (Token v) out pos = Inl AttributeError"
| "visit_pos self (Tree name cs m) out pos =
     (if name = ''info_fields'' then info_fields self (Tree name cs m) out pos
      else if name = ''info_field_param'' then info_field_param self (Tree name cs m) out pos
      else if name = ''info_field_returns'' then info_field_returns self (Tree name cs m) out pos
      else if name = ''info_field_other'' then info_field_other self (Tree name cs m) out pos
      else Inl (rewrite_other_handler 2 name))"
| "info_fields self (Token v) out pos = Inl AttributeError"
| "info_fields self (Tree d cs m) out pos = info_fields_loop self (tree_children cs) out pos"
| "info_fields_loop self [] out pos = Inr (out, pos)"
| "info_fields_loop self (child # rest) out pos =
     (case visit_pos self child out pos of
        Inl e \<Rightarrow> Inl e
      | Inr (out', pos') \<Rightarrow> info_fields_loop self rest out' pos')"
| "info_field_param self (Token v) out pos = Inl AttributeError"
| "info_field_param self (Tree d cs m) out pos =
     (case tree_children cs of
        [info_field_args_node, docs] \<Rightarrow>
          (case visit_str self info_field_args_node of
             Inl e \<Rightarrow> Inl e
           | Inr arg_name \<Rightarrow>
               (case spec_lines self arg_name of
                  None \<Rightarrow> Inr (out, pos)
                | Some lines \<Rightarrow>
                    if lines \<noteq> [] then insert_spec_lines self out pos lines docs
                    else Inr (out, pos)))
      | _ \<Rightarrow> Inl ValueError)"
  by pat_completeness auto
termination
proof (relation "measure (\<lambda>x. case x of
    Inl (Inl (self, t)) \<Rightarrow> 3 * size t + 2
  | Inl (Inr (Inl (self, t))) \<Rightarrow> 3 * size t + 1
  | Inl (Inr (Inr (self, t, out, pos))) \<Rightarrow> 3 * size t + 2
  | Inr (Inl (self, t, out, pos)) \<Rightarrow> 3 * size t + 1
  | Inr (Inr (Inl (self, cs, out, pos))) \<Rightarrow> 3 * size_list size cs
  | Inr (Inr (Inr (self, t, out, pos))) \<Rightarrow> 3 * size t + 1)", goal_cases)
  case (3 self d cs m x21 x22 x21a x22a)
  then show ?case
    using size_tree_child_less [of x21a cs] by simp
next
  case (6 self d cs m out pos)
  then show ?case
    using size_tree_children_le [of cs] by simp
next
  case (9 self d cs m out pos x21 x22 x21a x22a)
  then show ?case
    using size_tree_child_less [of x21 cs] by simp
qed simp_all

section \<open>Terminal descriptions and the module's globals\<close>

text \<open>
  A lark terminal has a name and a pattern, which is a \<^verbatim>\<open>PatternStr\<close> or a
  \<^verbatim>\<open>PatternRE\<close>, each with a \<^verbatim>\<open>value\<close>. Of a \<^verbatim>\<open>Lark\<close> object the module reads
  \<^verbatim>\<open>terminals\<close> and calls \<^verbatim>\<open>parse\<close>, which returns a tree or raises
  \<^verbatim>\<open>UnexpectedInput\<close>. The two grammar files are not part of parser.py, so the two
  parsers are parameters. A dict with string keys whose emptiness is tested is an
  association list read with \<^const>\<open>map_of\<close>.
\<close>

datatype pattern = PatternStr string | PatternRE string

type_synonym TerminalDef = "string \<times> pattern"

record Lark =
  terminals :: "TerminalDef list"
  parse :: "string \<Rightarrow> UnexpectedInput + node"

fun create_terminal_descriptions_loop ::
  "(string \<times> string) list \<Rightarrow> TerminalDef list \<Rightarrow> string list \<Rightarrow> (string \<times> string) list
     \<Rightarrow> (string \<times> string) list
     \<Rightarrow> error + (string list \<times> (string \<times> string) list \<times> (string \<times> string) list)" where
  "create_terminal_descriptions_loop re_descriptions [] missing unused result =
     Inr (missing, unused, result)"
| "create_terminal_descriptions_loop re_descriptions ((name, PatternStr v) # rest)
     missing unused result =
     create_terminal_descriptions_loop re_descriptions rest missing unused
       (AList.update name ([CHR 0x22] @ v @ [CHR 0x22]) result)"
| "create_terminal_descriptions_loop re_descriptions ((name, PatternRE v) # rest)
     missing unused result =
     (case map_of unused name of
        None \<Rightarrow>
          create_terminal_descriptions_loop re_descriptions rest (List.insert name missing)
            unused (AList.update name ''ERROR'' result)
      | Some unused_description \<Rightarrow>
          (case map_of re_descriptions name of
             None \<Rightarrow> Inl KeyError
           | Some description \<Rightarrow>
               create_terminal_descriptions_loop re_descriptions rest missing
                 (AList.delete name unused)
                 (AList.update name (description @ '' (re='' @ v @ '')'') result)))"

definition create_terminal_descriptions ::
  "Lark \<Rightarrow> (string \<times> string) list \<Rightarrow> error + (string \<times> string) list" where
  "create_terminal_descriptions parser re_descriptions =
     (case create_terminal_descriptions_loop re_descriptions (terminals parser) []
             re_descriptions [] of
        Inl e \<Rightarrow> Inl e
      | Inr (missing, unused, result) \<Rightarrow>
          if unused \<noteq> [] then Inl AssertionError
          else if missing \<noteq> [] then Inl AssertionError
          else Inr result)"

record parser_module =
  ARGUMENT_SPEC_PARSER :: Lark
  DOCSTRING_PARSER :: Lark
  ARGUMENT_SPEC_TERMINAL_DESCRIPTIONS :: "(string \<times> string) list"
  DOCSTRING_TERMINAL_DESCRIPTIONS :: "(string \<times> string) list"
  ARGUMENT_SPEC_CACHE :: "string \<rightharpoonup> ParsedArgumentSpec"
  SPHINX_DOCSTRING_CACHE :: "(string \<times> ParsedArgumentSpec list) \<rightharpoonup> string"

text \<open>The statements at module level, in the order of the file: the two parsers are
  opened (here: given), the two description tables are built, the two caches start
  empty. An assertion that fails while the module is loaded leaves no module, so no
  function of it can be called; the functions below take the loaded module as their
  first argument and return it with their result.\<close>

definition load_module :: "Lark \<Rightarrow> Lark \<Rightarrow> error + parser_module" where
  "load_module argument_spec_parser docstring_parser =
     (case create_terminal_descriptions argument_spec_parser
             [(''CNAME'', ''variable name''), (''INT'', ''integer''), (''WS'', ''whitespace'')] of
        Inl e \<Rightarrow> Inl e
      | Inr argument_spec_descriptions \<Rightarrow>
          (case create_terminal_descriptions docstring_parser
                  [(''ANY'', ''any text''), (''CNAME'', ''variable name''),
                   (''INFO_FIELD_OTHER'', ''Sphinx info field''),
                   (''PARAM'', ''Sphinx parameter field''),
                   (''RETURNS'', ''Sphinx `return` field''),
                   (''WS'', ''whitespace'')] of
             Inl e \<Rightarrow> Inl e
           | Inr docstring_descriptions \<Rightarrow>
               Inr \<lparr>ARGUMENT_SPEC_PARSER = argument_spec_parser,
                    DOCSTRING_PARSER = docstring_parser,
                    ARGUMENT_SPEC_TERMINAL_DESCRIPTIONS = argument_spec_descriptions,
                    DOCSTRING_TERMINAL_DESCRIPTIONS = docstring_descriptions,
                    ARGUMENT_SPEC_CACHE = Map.empty,
                    SPHINX_DOCSTRING_CACHE = Map.empty\<rparr>))"

section \<open>The entry points\<close>

definition parse_argument_spec ::
  "parser_module \<Rightarrow> string \<Rightarrow> ErrorContext \<Rightarrow> (error + ParsedArgumentSpec) \<times> parser_module" where
  "parse_argument_spec g spec_str ctx =
     (case ARGUMENT_SPEC_CACHE g spec_str of
        Some cached_value \<Rightarrow> (Inr cached_value, g)
      | None \<Rightarrow>
          (case parse (ARGUMENT_SPEC_PARSER g) spec_str of
             Inl e \<Rightarrow>
               (Inl (SpecificationParseError
                  (StackContext ctx
                     (LarkUnexpectedInputContext spec_str e
                        (ARGUMENT_SPEC_TERMINAL_DESCRIPTIONS g)))), g)
           | Inr tree \<Rightarrow> (visit_argument_spec tree, g)))"

definition parse_and_rewrite_sphinx_docstring ::
  "(ArgumentRef \<Rightarrow> string) \<Rightarrow> parser_module \<Rightarrow> string \<Rightarrow> ParsedArgumentSpec list \<Rightarrow> ErrorContext
     \<Rightarrow> (error + string) \<times> parser_module" where
  "parse_and_rewrite_sphinx_docstring repr g docstr argument_specs ctx =
     (case SPHINX_DOCSTRING_CACHE g (docstr, argument_specs) of
        Some cached_value \<Rightarrow> (Inr cached_value, g)
      | None \<Rightarrow>
          (case parse (DOCSTRING_PARSER g) docstr of
             Inl e \<Rightarrow>
               (Inl (DocstringParseError
                  (StackContext ctx
                     (LarkUnexpectedInputContext docstr e
                        (DOCSTRING_TERMINAL_DESCRIPTIONS g)))), g)
           | Inr tree \<Rightarrow> (visit_str (init repr docstr argument_specs) tree, g)))"

text \<open>Modelled from the spec: the enumeration \<^verbatim>\<open>DocstringFormat\<close> of \<^verbatim>\<open>config.py\<close>, "no
  rewriting" or "sphinx-style rewriting"; the value \<^verbatim>\<open>get_rewrite_docstrings()\<close> returns
  is a parameter.\<close>

datatype DocstringFormat = NONE | SPHINX

definition parse_and_rewrite_docstring ::
  "(ArgumentRef \<Rightarrow> string) \<Rightarrow> DocstringFormat \<Rightarrow> parser_module \<Rightarrow> string option
     \<Rightarrow> ParsedArgumentSpec list \<Rightarrow> ErrorContext \<Rightarrow> (error + string option) \<times> parser_module" where
  "parse_and_rewrite_docstring repr docstring_format g docstr argument_specs ctx =
     (case docstr of
        None \<Rightarrow> (Inr None, g)
      | Some d \<Rightarrow>
          (case docstring_format of
             NONE \<Rightarrow> (Inr (Some d), g)
           | SPHINX \<Rightarrow>
               (case parse_and_rewrite_sphinx_docstring repr g d argument_specs ctx of
                  (r, g') \<Rightarrow> (map_sum id Some r, g'))))"

section \<open>Definitions used to state the properties\<close>

text \<open>The rendering of one dimension in the words of the specification: a constant as
  its decimal digits, a name between asterisks, followed by three dots when the dimension
  has variable rank, one dot for an anonymous dimension and three dots for an anonymous
  dimension of variable rank.\<close>

definition render_dimension :: "ParsedDimensionSpec \<Rightarrow> string" where
  "render_dimension dim =
     (case constant dim of
        Some c \<Rightarrow> str_int c
      | None \<Rightarrow>
          (case variable_name dim of
             Some name \<Rightarrow>
               (if variable_rank dim then ''*'' @ name @ ''*...'' else ''*'' @ name @ ''*'')
           | None \<Rightarrow> (if variable_rank dim then ''...'' else ''.'')))"

text \<open>A chain of references written as data: each hop is an attribute name or an
  index. \<open>extend_ref\<close> wraps a reference by one hop; \<open>hop_node\<close> is the parse-tree node of
  a hop, the index written in decimal.\<close>

fun extend_ref :: "ArgumentRef \<Rightarrow> string + int \<Rightarrow> ArgumentRef" where
  "extend_ref r (Inl a) = AttributeArgumentRef r a"
| "extend_ref r (Inr i) = IndexArgumentRef r i"

fun hop_node :: "meta \<Rightarrow> string + int \<Rightarrow> node" where
  "hop_node m (Inl a) = Tree ''argument_ref_attribute'' [Token a] m"
| "hop_node m (Inr i) = Tree ''argument_ref_index'' [Token (str_int i)] m"

text \<open>A left fold whose step may fail; the first failure is the result.\<close>

fun foldl_err :: "('b \<Rightarrow> 'a \<Rightarrow> error + 'b) \<Rightarrow> 'b \<Rightarrow> 'a list \<Rightarrow> error + 'b" where
  "foldl_err f acc [] = Inr acc"
| "foldl_err f acc (x # xs) =
     (case f acc x of Inl e \<Rightarrow> Inl e | Inr acc' \<Rightarrow> foldl_err f acc' xs)"

text \<open>The invariant of a dimension specification: a constant excludes variable rank, and
  exactly one of "constant set", "name set" and "neither" holds.\<close>

definition dimension_invariant :: "ParsedDimensionSpec \<Rightarrow> bool" where
  "dimension_invariant d \<longleftrightarrow>
     (constant d \<noteq> None \<longrightarrow> \<not> variable_rank d) \<and>
     ((constant d \<noteq> None \<and> variable_name d = None) \<or>
      (constant d = None \<and> variable_name d \<noteq> None) \<or>
      (constant d = None \<and> variable_name d = None))"

text \<open>The base indentation in the words of the specification: among the lines after the
  first of the tab-expanded text, those that are not blank (not all whitespace); the
  least width of their leading whitespace, or nothing when there is no such line.\<close>

definition leading_whitespace_width :: "string \<Rightarrow> nat" where
  "leading_whitespace_width line = length (takeWhile isspace line)"

definition spec_guess_indent :: "string \<Rightarrow> int option" where
  "spec_guess_indent docstr =
     (let candidates = filter (\<lambda>line. \<not> list_all isspace line)
                         (tl (splitlines (expandtabs docstr)))
      in if candidates = [] then None
         else Some (Min (set (map (\<lambda>line. int (leading_whitespace_width line)) candidates))))"

text \<open>For a field whose docs node spans \<open>s\<close> to \<open>e\<close>, rewritten from position \<open>pos\<close>:
  the text from the end of the field's header (its trailing whitespace stripped) to the
  end of the docs, and the indentation of the lines inserted before it.\<close>

definition docs_text :: "RewritedocString \<Rightarrow> nat \<Rightarrow> nat \<Rightarrow> nat \<Rightarrow> string" where
  "docs_text self pos s e =
     slice (source self) (pos + length (rstrip (slice (source self) pos s))) e"

definition spec_line_indent :: "RewritedocString \<Rightarrow> string \<Rightarrow> nat" where
  "spec_line_indent self docs_str =
     (case guess_indent docs_str of
        Some i \<Rightarrow> nat i
      | None \<Rightarrow> (case indent self of Some b \<Rightarrow> nat (b + 4) | None \<Rightarrow> 4))"

text \<open>The shape of the tree that the docstring grammar produces, as the specification
  describes it: the top node has a header and the node of the info fields; each info
  field is a parameter field (with its arguments node and its docs), a returns field
  (with its docs) or another field.\<close>

fun wf_info_field :: "node \<Rightarrow> bool" where
  "wf_info_field (Token v) = False"
| "wf_info_field (Tree name cs m) =
     (if name = ''info_field_param''
      then (case tree_children cs of
              [Tree a acs am, docs] \<Rightarrow> a = ''info_field_args''
            | _ \<Rightarrow> False)
      else if name = ''info_field_returns''
      then (case tree_children cs of [docs] \<Rightarrow> True | _ \<Rightarrow> False)
      else name = ''info_field_other'')"

fun fields_of :: "node \<Rightarrow> node list" where
  "fields_of (Token v) = []"
| "fields_of (Tree d cs m) =
     (case tree_children cs of
        [docs, Tree f fs fm] \<Rightarrow> tree_children fs
      | _ \<Rightarrow> [])"

fun wf_docstring_tree :: "node \<Rightarrow> bool" where
  "wf_docstring_tree (Token v) = False"
| "wf_docstring_tree (Tree name cs m) =
     (name = ''docstring'' \<and>
      (case tree_children cs of
         [docs, Tree f fs fm] \<Rightarrow> f = ''info_fields'' \<and> list_all wf_info_field (tree_children fs)
       | _ \<Rightarrow> False))"

text \<open>The name under which a field looks its spec lines up: the last token of the
  arguments node of a parameter field (the empty string when it has no token), the result
  token for a returns field, nothing for another field. The docs node of a field.\<close>

fun field_key :: "node \<Rightarrow> string option" where
  "field_key (Token v) = None"
| "field_key (Tree name cs m) =
     (if name = ''info_field_param''
      then (case tree_children cs of
              [Tree a acs am, docs] \<Rightarrow>
                Some (if token_children acs = [] then [] else last (token_children acs))
            | _ \<Rightarrow> None)
      else if name = ''info_field_returns'' then Some RESULT_TOKEN
      else None)"

fun field_docs :: "node \<Rightarrow> node option" where
  "field_docs (Token v) = None"
| "field_docs (Tree name cs m) =
     (if name = ''info_field_param''
      then (case tree_children cs of [a, docs] \<Rightarrow> Some docs | _ \<Rightarrow> None)
      else if name = ''info_field_returns''
      then (case tree_children cs of [docs] \<Rightarrow> Some docs | _ \<Rightarrow> None)
      else None)"

text \<open>A field is matched when the rewriter has spec lines for its key; \<open>field_lines\<close> are
  those lines and \<open>field_key_text\<close> is the key as a string. The docs spans of the matched
  fields are ordered when each has its positions, starts at or after the end of the
  previous one and does not end before it starts. A matched field is unpositioned when
  its docs node carries no positions (an empty docs text).\<close>

definition matched :: "RewritedocString \<Rightarrow> node \<Rightarrow> bool" where
  "matched self f =
     (case field_key f of
        None \<Rightarrow> False
      | Some k \<Rightarrow> (case spec_lines self k of None \<Rightarrow> False | Some ls \<Rightarrow> ls \<noteq> []))"

definition field_key_text :: "node \<Rightarrow> string" where
  "field_key_text f = (case field_key f of None \<Rightarrow> [] | Some k \<Rightarrow> k)"

definition field_lines :: "RewritedocString \<Rightarrow> node \<Rightarrow> string list" where
  "field_lines self f =
     (case field_key f of
        None \<Rightarrow> []
      | Some k \<Rightarrow> (case spec_lines self k of None \<Rightarrow> [] | Some ls \<Rightarrow> ls))"

fun spans_ordered :: "RewritedocString \<Rightarrow> nat \<Rightarrow> node list \<Rightarrow> bool" where
  "spans_ordered self p [] = True"
| "spans_ordered self p (f # fs) =
     (if matched self f
      then (case field_docs f of
              Some (Tree d cs (Meta s e)) \<Rightarrow> p \<le> s \<and> s \<le> e \<and> spans_ordered self e fs
            | _ \<Rightarrow> False)
      else spans_ordered self p fs)"

definition unpositioned :: "RewritedocString \<Rightarrow> node \<Rightarrow> bool" where
  "unpositioned self f \<longleftrightarrow>
     matched self f \<and>
     (case field_docs f of Some (Tree d cs EmptyMeta) \<Rightarrow> True | _ \<Rightarrow> False)"

text \<open>The text inserted at a matched field: every spec line after a line feed and \<open>n\<close>
  spaces, then an empty line and a line feed with \<open>n\<close> spaces.\<close>

definition inserted_text :: "nat \<Rightarrow> string list \<Rightarrow> string" where
  "inserted_text n lines =
     concat (map (\<lambda>l. (CHR 0x0A # replicate n (CHR 0x20)) @ l) lines)
       @ [CHR 0x0A] @ (CHR 0x0A # replicate n (CHR 0x20))"

text \<open>What the rewrite does at one matched field, reached with the cursor at \<open>pos\<close>, whose
  docs node spans \<open>s\<close> to \<open>e\<close>: the text from the cursor to the end of the field's header
  is kept, the whitespace run between the header and the docs text is replaced by the
  inserted text (the field's spec lines, indented by the indentation of the docs text,
  else the base indentation plus 4, else 4), and the docs text is kept. The three parts
  together are the original text from \<open>pos\<close> to \<open>e\<close>.\<close>

record segment =
  seg_keep :: string
  seg_run :: string
  seg_indent :: nat
  seg_key :: string
  seg_lines :: "string list"
  seg_body :: string

definition field_segment ::
  "RewritedocString \<Rightarrow> nat \<Rightarrow> string \<Rightarrow> string list \<Rightarrow> nat \<Rightarrow> nat \<Rightarrow> segment" where
  "field_segment self pos k lines s e =
     \<lparr>seg_keep = rstrip (slice (source self) pos s),
      seg_run = takeWhile isspace (docs_text self pos s e),
      seg_indent = spec_line_indent self (docs_text self pos s e),
      seg_key = k,
      seg_lines = lines,
      seg_body = lstrip (docs_text self pos s e)\<rparr>"

text \<open>The segments of the matched fields, in the order of the fields, the cursor moving
  to the end of the docs of each matched field; and the cursor after the last field.\<close>

fun field_segments :: "RewritedocString \<Rightarrow> nat \<Rightarrow> node list \<Rightarrow> segment list" where
  "field_segments self pos [] = []"
| "field_segments self pos (f # fs) =
     (if matched self f
      then (case field_docs f of
              Some (Tree d cs (Meta s e)) \<Rightarrow>
                field_segment self pos (field_key_text f) (field_lines self f) s e
                  # field_segments self e fs
            | _ \<Rightarrow> field_segments self pos fs)
      else field_segments self pos fs)"

fun cursor_after :: "RewritedocString \<Rightarrow> nat \<Rightarrow> node list \<Rightarrow> nat" where
  "cursor_after self pos [] = pos"
| "cursor_after self pos (f # fs) =
     (if matched self f
      then (case field_docs f of
              Some (Tree d cs (Meta s e)) \<Rightarrow> cursor_after self e fs
            | _ \<Rightarrow> cursor_after self pos fs)
      else cursor_after self pos fs)"

text \<open>The original text has the whitespace runs, the rewritten text has the insertions
  in their place; everything else is the same.\<close>

definition original_text :: "segment list \<Rightarrow> string \<Rightarrow> string" where
  "original_text segs rest =
     concat (map (\<lambda>g. seg_keep g @ seg_run g @ seg_body g) segs) @ rest"

definition rewritten_text :: "segment list \<Rightarrow> string \<Rightarrow> string" where
  "rewritten_text segs rest =
     concat (map (\<lambda>g. seg_keep g @ inserted_text (seg_indent g) (seg_lines g) @ seg_body g) segs)
       @ rest"

text \<open>A segment is well formed when its run is whitespace only and is the whole run (the
  kept text does not end and the docs text does not start with whitespace), and its lines
  are the non-empty spec lines of its key.\<close>

definition segment_ok :: "RewritedocString \<Rightarrow> segment \<Rightarrow> bool" where
  "segment_ok self g \<longleftrightarrow>
     list_all isspace (seg_run g)
     \<and> (seg_keep g = [] \<or> \<not> isspace (last (seg_keep g)))
     \<and> (seg_body g = [] \<or> \<not> isspace (hd (seg_body g)))
     \<and> seg_lines g \<noteq> []
     \<and> spec_lines self (seg_key g) = Some (seg_lines g)"

section \<open>Properties of the builtins\<close>

lemma digit_char_is_digit: "is_digit (digit_char d)"
proof -
  have "d mod 10 = 0 \<or> d mod 10 = 1 \<or> d mod 10 = 2 \<or> d mod 10 = 3 \<or> d mod 10 = 4
    \<or> d mod 10 = 5 \<or> d mod 10 = 6 \<or> d mod 10 = 7 \<or> d mod 10 = 8 \<or> d mod 10 = 9"
    by arith
  then show ?thesis
    unfolding digit_char_def is_digit_def by (elim disjE) simp_all
qed

lemma digit_val_digit_char: "digit_val (digit_char d) = d mod 10"
proof -
  have "d mod 10 = 0 \<or> d mod 10 = 1 \<or> d mod 10 = 2 \<or> d mod 10 = 3 \<or> d mod 10 = 4
    \<or> d mod 10 = 5 \<or> d mod 10 = 6 \<or> d mod 10 = 7 \<or> d mod 10 = 8 \<or> d mod 10 = 9"
    by arith
  then show ?thesis
    unfolding digit_char_def digit_val_def by (elim disjE) simp_all
qed

lemma is_digit_not_space: "is_digit c \<Longrightarrow> \<not> isspace c"
  unfolding is_digit_def isspace_def by auto

lemma is_digit_not_sign: "is_digit c \<Longrightarrow> c \<noteq> CHR ''-'' \<and> c \<noteq> CHR ''+'' \<and> c \<noteq> CHR ''_''"
  unfolding is_digit_def by auto

lemma str_nat_digits: "list_all is_digit (str_nat n)"
  by (induction n rule: str_nat.induct) (subst str_nat.simps, simp add: digit_char_is_digit)

lemma str_nat_not_Nil: "str_nat n \<noteq> []"
  by (subst str_nat.simps) simp

lemma int_digits_all_digits:
  "list_all is_digit ds \<Longrightarrow>
   int_digits acc ds = Inr (foldl (\<lambda>a c. 10 * a + digit_val c) acc ds)"
  by (induction acc ds rule: int_digits.induct) simp_all

lemma foldl_str_nat: "foldl (\<lambda>a c. 10 * a + digit_val c) 0 (str_nat n) = n"
proof (induction n rule: str_nat.induct)
  case (1 n)
  show ?case
  proof (cases "n < 10")
    case True
    then show ?thesis by (subst str_nat.simps) (simp add: digit_val_digit_char)
  next
    case False
    with 1 show ?thesis by (subst str_nat.simps) (simp add: digit_val_digit_char)
  qed
qed

lemma int_unsigned_str_nat: "int_unsigned (str_nat n) = Inr n"
proof -
  obtain c cs where cs: "str_nat n = c # cs"
    using str_nat_not_Nil [of n] by (cases "str_nat n") auto
  have d: "list_all is_digit (c # cs)" using str_nat_digits [of n] cs by simp
  have "int_digits (digit_val c) cs = Inr (foldl (\<lambda>a c. 10 * a + digit_val c) 0 (c # cs))"
    using d by (simp add: int_digits_all_digits)
  then show ?thesis
    using d foldl_str_nat [of n] by (simp add: int_unsigned_def cs)
qed

lemma lstrip_id: "s = [] \<or> \<not> isspace (hd s) \<Longrightarrow> lstrip s = s"
  unfolding lstrip_def by (cases s) auto

lemma rstrip_id: "s = [] \<or> \<not> isspace (last s) \<Longrightarrow> rstrip s = s"
  unfolding rstrip_def by (cases s rule: rev_cases) auto

lemma is_digit_not_int_space: "is_digit c \<Longrightarrow> \<not> int_isspace c"
  unfolding is_digit_def int_isspace_def by auto

lemma int_strip_id:
  "\<not> int_isspace (hd s) \<Longrightarrow> \<not> int_isspace (last s) \<Longrightarrow> s \<noteq> [] \<Longrightarrow> int_strip s = s"
proof -
  assume h: "\<not> int_isspace (hd s)" and l: "\<not> int_isspace (last s)" and n: "s \<noteq> []"
  have "dropWhile int_isspace s = s" using h n by (cases s) auto
  moreover have "dropWhile int_isspace (rev s) = rev s"
    using l n by (cases s rule: rev_cases) auto
  ultimately show ?thesis by (simp add: int_strip_def)
qed

lemma strip_str_int: "int_strip (str_int i) = str_int i"
proof -
  obtain c cs where cs: "str_nat (nat \<bar>i\<bar>) = c # cs"
    using str_nat_not_Nil by (cases "str_nat (nat \<bar>i\<bar>)") auto
  have d: "list_all is_digit (c # cs)" using str_nat_digits [of "nat \<bar>i\<bar>"] cs by simp
  have l: "is_digit (last (c # cs))"
    using d by (metis last_in_set list.distinct(1) list_all_iff)
  have m: "\<not> int_isspace (CHR ''-'')" by (simp add: int_isspace_def)
  show ?thesis
  proof (cases "i < 0")
    case True
    then have s: "str_int i = CHR ''-'' # c # cs"
      using cs by (simp add: str_int_def abs_if)
    show ?thesis
      by (rule int_strip_id) (use l m in \<open>simp_all add: s is_digit_not_int_space\<close>)
  next
    case False
    then have s: "str_int i = c # cs"
      using cs by (simp add: str_int_def abs_if)
    show ?thesis
      by (rule int_strip_id) (use l d in \<open>simp_all add: s is_digit_not_int_space\<close>)
  qed
qed

text \<open>The decimal rendering of an integer reads back as that integer.\<close>

lemma py_int_str_int: "py_int (str_int i) = Inr i"
proof (cases "i < 0")
  case True
  then have s: "str_int i = CHR ''-'' # str_nat (nat (- i))" by (simp add: str_int_def)
  show ?thesis
    unfolding py_int_def strip_str_int
    using True by (simp add: s int_unsigned_str_nat)
next
  case False
  obtain c cs where cs: "str_nat (nat i) = c # cs"
    using str_nat_not_Nil by (cases "str_nat (nat i)") auto
  have d: "is_digit c" using str_nat_digits [of "nat i"] cs by simp
  have s: "str_int i = c # cs" using False cs by (simp add: str_int_def)
  have u: "int_unsigned (c # cs) = Inr (nat i)" using int_unsigned_str_nat [of "nat i"] cs by simp
  show ?thesis
    unfolding py_int_def strip_str_int
    using False is_digit_not_sign [OF d] by (simp add: s u)
qed

lemma str_int_3: "str_int 3 = ''3''"
  by (simp add: str_int_def str_nat.simps digit_char_def)

section \<open>Rendering of shapes\<close>

lemma shape_spec_to_sphinx_loop_eq:
  "shape_spec_to_sphinx_loop ds out = out @ map render_dimension ds"
  by (induction ds arbitrary: out) (simp_all add: render_dimension_def split: option.splits)

text \<open>
  C4. \<^verbatim>\<open>_shape_spec_to_sphinx\<close> renders every dimension by the documented rule and joins
  the renderings with a comma and a space: a constant gives its decimal digits (which read
  back as the constant), a named dimension its name between asterisks, a named dimension
  of variable rank the same followed by three dots, an anonymous dimension one dot, an
  anonymous dimension of variable rank three dots. The shape of the constant 3, the
  variable-rank dimension named batch and an anonymous dimension renders to
  \<^verbatim>\<open>3, *batch*..., .\<close>
\<close>

theorem shape_spec_to_sphinx_renders_dimensions:
  "shape_spec_to_sphinx (ParsedShapeSpec ds) = py_join '', '' (map render_dimension ds)
   \<and> shape_spec_to_sphinx (ParsedShapeSpec
        [\<lparr>constant = Some c, variable_name = vn, variable_rank = r\<rparr>]) = str_int c
   \<and> py_int (str_int c) = Inr c
   \<and> shape_spec_to_sphinx (ParsedShapeSpec
        [\<lparr>constant = None, variable_name = Some n, variable_rank = False\<rparr>]) = ''*'' @ n @ ''*''
   \<and> shape_spec_to_sphinx (ParsedShapeSpec
        [\<lparr>constant = None, variable_name = Some n, variable_rank = True\<rparr>]) = ''*'' @ n @ ''*...''
   \<and> shape_spec_to_sphinx (ParsedShapeSpec
        [\<lparr>constant = None, variable_name = None, variable_rank = False\<rparr>]) = ''.''
   \<and> shape_spec_to_sphinx (ParsedShapeSpec
        [\<lparr>constant = None, variable_name = None, variable_rank = True\<rparr>]) = ''...''
   \<and> shape_spec_to_sphinx (ParsedShapeSpec
        [\<lparr>constant = Some 3, variable_name = None, variable_rank = False\<rparr>,
         \<lparr>constant = None, variable_name = Some ''batch'', variable_rank = True\<rparr>,
         \<lparr>constant = None, variable_name = None, variable_rank = False\<rparr>]) = ''3, *batch*..., .''"
proof (intro conjI)
  show "shape_spec_to_sphinx (ParsedShapeSpec ds) = py_join '', '' (map render_dimension ds)"
    by (simp add: shape_spec_to_sphinx_def shape_spec_to_sphinx_loop_eq)
  show "py_int (str_int c) = Inr c"
    by (rule py_int_str_int)
qed (simp_all add: shape_spec_to_sphinx_def str_int_3)

section \<open>The model builder\<close>

lemma argument_refs_loop_foldl_err:
  "argument_refs_loop cs r = foldl_err (\<lambda>acc c. visit_argument_ref c acc) r cs"
  by (induction cs arbitrary: r) (simp_all split: sum.splits)

lemma is_Tree_hop_node: "is_Tree (hop_node m h)"
  by (cases h) simp_all

lemma tree_children_hops: "tree_children (map (hop_node m) hops) = map (hop_node m) hops"
  by (simp add: tree_children_def is_Tree_hop_node)

lemma visit_hop_node: "visit_argument_ref (hop_node m h) r = Inr (extend_ref r h)"
  by (cases h) (simp_all add: py_int_str_int)

lemma argument_refs_loop_hops:
  "argument_refs_loop (map (hop_node m) hops) r = Inr (foldl extend_ref r hops)"
  by (induction hops arbitrary: r) (simp_all add: visit_hop_node)

lemma root_argument_name_extend: "root_argument_name (extend_ref r h) = root_argument_name r"
  by (cases h) simp_all

lemma root_argument_name_foldl:
  "root_argument_name (foldl extend_ref r hops) = root_argument_name r"
  by (induction hops arbitrary: r) (simp_all add: root_argument_name_extend)

lemma py_int_2: "py_int ''2'' = Inr 2"
  by (simp add: py_int_def int_strip_def int_isspace_def int_unsigned_def is_digit_def
      digit_val_def)

lemma py_int_3: "py_int ''3'' = Inr 3"
  by (simp add: py_int_def int_strip_def int_isspace_def int_unsigned_def is_digit_def
      digit_val_def)

text \<open>
  C5. \<^verbatim>\<open>argument_refs\<close> folds the tree children of the reference-chain node from the left
  over the reference it is given, one \<^verbatim>\<open>visit\<close> per child. An attribute node wraps the
  accumulated reference in an \<^verbatim>\<open>AttributeArgumentRef\<close> with its token; an index node wraps
  it in an \<^verbatim>\<open>IndexArgumentRef\<close> with \<^verbatim>\<open>int\<close> of its token, which reads a signed decimal.
  So a chain of hops yields the left fold of the hops over the root, whose root argument
  name is the root's; the tree of \<^verbatim>\<open>a.b[2]\<close> yields the index 2 of the attribute b of the
  root a, with root argument name a.
\<close>

theorem argument_refs_folds_children:
  "argument_refs (Tree d cs m) root =
     foldl_err (\<lambda>acc child. visit_argument_ref child acc) root (tree_children cs)
   \<and> visit_argument_ref (Tree ''argument_ref_attribute'' [Token a] m1) r =
       Inr (AttributeArgumentRef r a)
   \<and> visit_argument_ref (Tree ''argument_ref_index'' [Token t] m2) r =
       map_sum id (IndexArgumentRef r) (py_int t)
   \<and> py_int (str_int i) = Inr i
   \<and> visit_argument_ref (Tree ''argument_refs'' (map (hop_node m3) hops) m) root =
       Inr (foldl extend_ref root hops)
   \<and> root_argument_name (foldl extend_ref root hops) = root_argument_name root
   \<and> visit_argument_spec
        (Tree ''argument_spec''
          [Tree ''argument_name'' [Token ''a''] m4,
           Tree ''argument_refs''
             [Tree ''argument_ref_attribute'' [Token ''b''] m5,
              Tree ''argument_ref_index'' [Token ''2''] m6] m7,
           Tree ''shape_spec''
             [Tree ''dimension_specs'' [Tree ''dimension_spec_constant'' [Token ''3''] m8] m9]
             m10] m11) =
       Inr (ParsedArgumentSpec
              (IndexArgumentRef (AttributeArgumentRef (RootArgumentRef ''a'') ''b'') 2)
              (ParsedShapeSpec [\<lparr>constant = Some 3, variable_name = None, variable_rank = False\<rparr>]))
   \<and> root_argument_name
        (IndexArgumentRef (AttributeArgumentRef (RootArgumentRef ''a'') ''b'') 2) = ''a''"
proof (intro conjI)
  show "argument_refs (Tree d cs m) root =
     foldl_err (\<lambda>acc child. visit_argument_ref child acc) root (tree_children cs)"
    by (simp add: argument_refs_loop_foldl_err)
  show "visit_argument_ref (Tree ''argument_ref_index'' [Token t] m2) r =
       map_sum id (IndexArgumentRef r) (py_int t)"
    by (cases "py_int t") simp_all
  show "py_int (str_int i) = Inr i"
    by (rule py_int_str_int)
  show "visit_argument_ref (Tree ''argument_refs'' (map (hop_node m3) hops) m) root =
       Inr (foldl extend_ref root hops)"
    by (simp add: tree_children_hops argument_refs_loop_hops)
  show "root_argument_name (foldl extend_ref root hops) = root_argument_name root"
    by (rule root_argument_name_foldl)
qed (simp_all add: tree_children_def py_int_2 py_int_3)

lemma map_err_Inr:
  "map_err f xs = Inr ys \<Longrightarrow> list_all2 (\<lambda>x y. f x = Inr y) xs ys"
  by (induction xs arbitrary: ys) (auto split: sum.splits)

lemma dimension_spec_constant_inv: "dimension_spec_constant t = Inr d \<Longrightarrow> dimension_invariant d"
  by (cases t) (auto simp: dimension_invariant_def split: list.splits sum.splits)

lemma dimension_spec_variable_inv: "dimension_spec_variable t = Inr d \<Longrightarrow> dimension_invariant d"
  by (cases t) (auto simp: dimension_invariant_def split: list.splits sum.splits)

lemma dimension_spec_anonymous_inv: "dimension_spec_anonymous t = Inr d \<Longrightarrow> dimension_invariant d"
  by (auto simp: dimension_invariant_def dimension_spec_anonymous_def)

lemma dimension_spec_variable_rank_inv:
  "dimension_spec_variable_rank t = Inr d \<Longrightarrow> dimension_invariant d"
  by (cases t) (auto simp: dimension_invariant_def split: list.splits sum.splits if_splits)

lemma dimension_spec_anonymous_variable_rank_inv:
  "dimension_spec_anonymous_variable_rank t = Inr d \<Longrightarrow> dimension_invariant d"
  by (auto simp: dimension_invariant_def dimension_spec_anonymous_variable_rank_def)

lemma visit_dimension_spec_inv: "visit_dimension_spec t = Inr d \<Longrightarrow> dimension_invariant d"
proof (cases t)
  case (Tree name cs m)
  assume "visit_dimension_spec t = Inr d"
  then show ?thesis
    unfolding Tree visit_dimension_spec.simps
    by (auto simp del: dimension_spec_constant.simps dimension_spec_variable.simps
          dimension_spec_variable_rank.simps
        split: if_splits
        dest: dimension_spec_constant_inv dimension_spec_variable_inv dimension_spec_anonymous_inv
          dimension_spec_variable_rank_inv dimension_spec_anonymous_variable_rank_inv)
qed simp

lemma map_err_visit_dimension_spec_inv:
  "map_err visit_dimension_spec xs = Inr ds \<Longrightarrow> list_all dimension_invariant ds"
  by (induction xs arbitrary: ds) (auto split: sum.splits dest: visit_dimension_spec_inv)

lemma visit_dimension_specs_inv:
  "visit_dimension_specs t = Inr ds \<Longrightarrow> list_all dimension_invariant ds"
  by (cases t) (auto split: if_splits dest: map_err_visit_dimension_spec_inv)

lemma visit_shape_spec_inv:
  "visit_shape_spec t r = Inr sh \<Longrightarrow> list_all dimension_invariant (dims sh)"
  by (cases t) (auto split: if_splits list.splits sum.splits dest: visit_dimension_specs_inv)

lemma visit_argument_spec_inv:
  "visit_argument_spec t = Inr spec \<Longrightarrow> list_all dimension_invariant (dims (shape spec))"
  by (cases t) (auto split: if_splits list.splits sum.splits dest: visit_shape_spec_inv)

text \<open>
  C7. Every \<^verbatim>\<open>ParsedDimensionSpec\<close> that one of the five dimension handlers returns
  satisfies the invariant: a constant excludes variable rank, and exactly one of "constant
  set", "name set" and "neither" holds. The same holds through the dispatch of
  \<^verbatim>\<open>visit\<close> and for every dimension of a parsed argument specification.
\<close>

theorem dimension_handlers_keep_invariant:
  "(dimension_spec_constant t = Inr d \<longrightarrow> dimension_invariant d)
   \<and> (dimension_spec_variable t = Inr d \<longrightarrow> dimension_invariant d)
   \<and> (dimension_spec_anonymous t = Inr d \<longrightarrow> dimension_invariant d)
   \<and> (dimension_spec_variable_rank t = Inr d \<longrightarrow> dimension_invariant d)
   \<and> (dimension_spec_anonymous_variable_rank t = Inr d \<longrightarrow> dimension_invariant d)
   \<and> (visit_dimension_spec t = Inr d \<longrightarrow> dimension_invariant d)
   \<and> (visit_argument_spec t = Inr spec \<longrightarrow> list_all dimension_invariant (dims (shape spec)))"
  using dimension_spec_constant_inv dimension_spec_variable_inv dimension_spec_anonymous_inv
    dimension_spec_variable_rank_inv dimension_spec_anonymous_variable_rank_inv
    visit_dimension_spec_inv visit_argument_spec_inv
  by blast

theorem dimension_handlers_keep_invariant_witness:
  "dimension_spec_constant (Tree ''dimension_spec_constant'' [Token ''3''] EmptyMeta) =
     Inr \<lparr>constant = Some 3, variable_name = None, variable_rank = False\<rparr>
   \<and> dimension_invariant \<lparr>constant = Some 3, variable_name = None, variable_rank = False\<rparr>
   \<and> dimension_spec_variable (Tree ''dimension_spec_variable'' [Token ''n''] EmptyMeta) =
     Inr \<lparr>constant = None, variable_name = Some ''n'', variable_rank = False\<rparr>
   \<and> dimension_invariant \<lparr>constant = None, variable_name = Some ''n'', variable_rank = False\<rparr>
   \<and> dimension_spec_anonymous (Tree ''dimension_spec_anonymous'' [] EmptyMeta) =
     Inr \<lparr>constant = None, variable_name = None, variable_rank = False\<rparr>
   \<and> dimension_invariant \<lparr>constant = None, variable_name = None, variable_rank = False\<rparr>
   \<and> dimension_spec_variable_rank
       (Tree ''dimension_spec_variable_rank'' [Token ''batch'', Token ''...''] EmptyMeta) =
     Inr \<lparr>constant = None, variable_name = Some ''batch'', variable_rank = True\<rparr>
   \<and> dimension_invariant \<lparr>constant = None, variable_name = Some ''batch'', variable_rank = True\<rparr>
   \<and> dimension_spec_anonymous_variable_rank
       (Tree ''dimension_spec_anonymous_variable_rank'' [] EmptyMeta) =
     Inr \<lparr>constant = None, variable_name = None, variable_rank = True\<rparr>
   \<and> dimension_invariant \<lparr>constant = None, variable_name = None, variable_rank = True\<rparr>
   \<and> visit_dimension_spec
       (Tree ''dimension_spec_variable_rank'' [Token ''*'', Token ''rest''] EmptyMeta) =
     Inr \<lparr>constant = None, variable_name = Some ''rest'', variable_rank = True\<rparr>
   \<and> dimension_invariant \<lparr>constant = None, variable_name = Some ''rest'', variable_rank = True\<rparr>
   \<and> visit_argument_spec
        (Tree ''argument_spec''
          [Tree ''argument_name'' [Token ''a''] EmptyMeta,
           Tree ''argument_refs'' [] EmptyMeta,
           Tree ''shape_spec''
             [Tree ''dimension_specs''
               [Tree ''dimension_spec_constant'' [Token ''3''] EmptyMeta,
                Tree ''dimension_spec_anonymous_variable_rank'' [] EmptyMeta] EmptyMeta]
             EmptyMeta] EmptyMeta) =
       Inr (ParsedArgumentSpec (RootArgumentRef ''a'')
              (ParsedShapeSpec
                 [\<lparr>constant = Some 3, variable_name = None, variable_rank = False\<rparr>,
                  \<lparr>constant = None, variable_name = None, variable_rank = True\<rparr>]))
   \<and> list_all dimension_invariant
        [\<lparr>constant = Some 3, variable_name = None, variable_rank = False\<rparr>,
         \<lparr>constant = None, variable_name = None, variable_rank = True\<rparr>]"
proof -
  let ?t1 = "Tree ''dimension_spec_constant'' [Token ''3''] EmptyMeta"
  let ?t2 = "Tree ''dimension_spec_variable'' [Token ''n''] EmptyMeta"
  let ?t3 = "Tree ''dimension_spec_anonymous'' [] EmptyMeta"
  let ?t4 = "Tree ''dimension_spec_variable_rank'' [Token ''batch'', Token ''...''] EmptyMeta"
  let ?t5 = "Tree ''dimension_spec_anonymous_variable_rank'' [] EmptyMeta"
  let ?t6 = "Tree ''dimension_spec_variable_rank'' [Token ''*'', Token ''rest''] EmptyMeta"
  let ?t7 = "Tree ''argument_spec''
          [Tree ''argument_name'' [Token ''a''] EmptyMeta,
           Tree ''argument_refs'' [] EmptyMeta,
           Tree ''shape_spec''
             [Tree ''dimension_specs''
               [Tree ''dimension_spec_constant'' [Token ''3''] EmptyMeta,
                Tree ''dimension_spec_anonymous_variable_rank'' [] EmptyMeta] EmptyMeta]
             EmptyMeta] EmptyMeta"
  let ?d1 = "\<lparr>constant = Some 3, variable_name = None, variable_rank = False\<rparr>"
  let ?d2 = "\<lparr>constant = None, variable_name = Some ''n'', variable_rank = False\<rparr>"
  let ?d3 = "\<lparr>constant = None, variable_name = None, variable_rank = False\<rparr>"
  let ?d4 = "\<lparr>constant = None, variable_name = Some ''batch'', variable_rank = True\<rparr>"
  let ?d5 = "\<lparr>constant = None, variable_name = None, variable_rank = True\<rparr>"
  let ?d6 = "\<lparr>constant = None, variable_name = Some ''rest'', variable_rank = True\<rparr>"
  let ?s7 = "ParsedArgumentSpec (RootArgumentRef ''a'') (ParsedShapeSpec [?d1, ?d5])"
  have e1: "dimension_spec_constant ?t1 = Inr ?d1" by (simp add: py_int_3)
  have e2: "dimension_spec_variable ?t2 = Inr ?d2" by simp
  have e3: "dimension_spec_anonymous ?t3 = Inr ?d3" by (simp add: dimension_spec_anonymous_def)
  have e4: "dimension_spec_variable_rank ?t4 = Inr ?d4" by simp
  have e5: "dimension_spec_anonymous_variable_rank ?t5 = Inr ?d5"
    by (simp add: dimension_spec_anonymous_variable_rank_def)
  have e6: "visit_dimension_spec ?t6 = Inr ?d6" by simp
  have e7: "visit_argument_spec ?t7 = Inr ?s7"
    by (simp add: tree_children_def py_int_3 dimension_spec_anonymous_variable_rank_def)
  have i1: "dimension_invariant ?d1"
    using dimension_handlers_keep_invariant [of ?t1 ?d1] e1 by blast
  have i2: "dimension_invariant ?d2"
    using dimension_handlers_keep_invariant [of ?t2 ?d2] e2 by blast
  have i3: "dimension_invariant ?d3"
    using dimension_handlers_keep_invariant [of ?t3 ?d3] e3 by blast
  have i4: "dimension_invariant ?d4"
    using dimension_handlers_keep_invariant [of ?t4 ?d4] e4 by blast
  have i5: "dimension_invariant ?d5"
    using dimension_handlers_keep_invariant [of ?t5 ?d5] e5 by blast
  have i6: "dimension_invariant ?d6"
    using dimension_handlers_keep_invariant [of ?t6 ?d6] e6 by blast
  have i7: "list_all dimension_invariant [?d1, ?d5]"
    using dimension_handlers_keep_invariant [of ?t7 _ ?s7] e7 by simp
  show ?thesis
    using e1 e2 e3 e4 e5 e6 e7 i1 i2 i3 i4 i5 i6 i7 by blast
qed

section \<open>Terminal descriptions\<close>

lemma loop_no_KeyError:
  "(\<And>k. map_of unused k \<noteq> None \<Longrightarrow> map_of re k \<noteq> None) \<Longrightarrow>
   \<exists>r. create_terminal_descriptions_loop re ts missing unused result = Inr r"
proof (induction re ts missing unused result rule: create_terminal_descriptions_loop.induct)
  case (3 re name v rest missing unused result)
  show ?case
  proof (cases "map_of unused name")
    case None
    then show ?thesis using 3 by simp
  next
    case (Some u)
    then obtain d where d: "map_of re name = Some d" using 3(3) [of name] by auto
    have "\<And>k. map_of (AList.delete name unused) k \<noteq> None \<Longrightarrow> map_of re k \<noteq> None"
      using 3(3) by (simp add: delete_conv split: if_splits)
    then show ?thesis using 3(2) [OF Some d] Some d by simp
  qed
qed simp_all

lemma loop_missing_mono:
  "create_terminal_descriptions_loop re ts missing unused result = Inr (missing', unused', result')
   \<Longrightarrow> set missing \<subseteq> set missing'"
proof (induction re ts missing unused result rule: create_terminal_descriptions_loop.induct)
  case (3 re name v rest missing unused result)
  then show ?case by (auto split: option.splits)
qed simp_all

lemma loop_records_missing:
  "create_terminal_descriptions_loop re ts missing unused result = Inr (missing', unused', result')
   \<Longrightarrow> (n, PatternRE v) \<in> set ts \<Longrightarrow> map_of unused n = None \<Longrightarrow> n \<in> set missing'"
proof (induction re ts missing unused result rule: create_terminal_descriptions_loop.induct)
  case (3 re name w rest missing unused result)
  show ?case
  proof (cases "map_of unused name")
    case None
    show ?thesis
    proof (cases "n = name")
      case True
      then show ?thesis using 3(3) None loop_missing_mono [of re rest "List.insert name missing" unused
            "AList.update name ''ERROR'' result" missing' unused' result'] by auto
    next
      case False
      then show ?thesis using 3(1) [OF None] 3(3,4,5) None by auto
    qed
  next
    case (Some u)
    then have ne: "n \<noteq> name" using 3(5) by auto
    from 3(3) Some obtain d where d: "map_of re name = Some d"
      by (auto split: option.splits)
    have "map_of (AList.delete name unused) n = None" using 3(5) by (simp add: delete_conv)
    then show ?thesis using 3(2) [OF Some d] 3(3,4) Some d ne by auto
  qed
qed auto

lemma loop_keeps_unused:
  "create_terminal_descriptions_loop re ts missing unused result = Inr (missing', unused', result')
   \<Longrightarrow> map_of unused k \<noteq> None \<Longrightarrow> k \<notin> fst ` set ts \<Longrightarrow> map_of unused' k \<noteq> None"
proof (induction re ts missing unused result rule: create_terminal_descriptions_loop.induct)
  case (3 re name w rest missing unused result)
  show ?case
  proof (cases "map_of unused name")
    case None
    then show ?thesis using 3(1) [OF None] 3(3,4,5) by auto
  next
    case (Some u)
    from 3(3) Some obtain d where d: "map_of re name = Some d"
      by (auto split: option.splits)
    have "map_of (AList.delete name unused) k \<noteq> None" using 3(4,5) by (simp add: delete_conv)
    then show ?thesis using 3(2) [OF Some d] 3(3,5) Some d by auto
  qed
qed auto

lemma loop_result_other:
  "create_terminal_descriptions_loop re ts missing unused result = Inr (missing', unused', result')
   \<Longrightarrow> n \<notin> fst ` set ts \<Longrightarrow> map_of result' n = map_of result n"
proof (induction re ts missing unused result rule: create_terminal_descriptions_loop.induct)
  case (3 re name w rest missing unused result)
  then show ?case by (auto split: option.splits simp: update_conv')
qed (auto simp: update_conv')

lemma loop_result_dom:
  "create_terminal_descriptions_loop re ts missing unused result = Inr (missing', unused', result')
   \<Longrightarrow> dom (map_of result') = dom (map_of result) \<union> fst ` set ts"
proof (induction re ts missing unused result rule: create_terminal_descriptions_loop.induct)
  case (3 re name w rest missing unused result)
  then show ?case by (auto split: option.splits simp: update_conv' dom_def)
qed (auto simp: update_conv' dom_def)

lemma loop_result_str:
  "create_terminal_descriptions_loop re ts missing unused result = Inr (missing', unused', result')
   \<Longrightarrow> distinct (map fst ts) \<Longrightarrow> (n, PatternStr v) \<in> set ts
   \<Longrightarrow> map_of result' n = Some ([CHR 0x22] @ v @ [CHR 0x22])"
proof (induction re ts missing unused result rule: create_terminal_descriptions_loop.induct)
  case (2 re name w rest missing unused result)
  show ?case
  proof (cases "(n, PatternStr v) = (name, PatternStr w)")
    case True
    then have "n \<notin> fst ` set rest" using 2(3) by auto
    then show ?thesis using loop_result_other [of re rest missing unused _ missing' unused' result' n]
      2(2) True by (simp add: update_conv')
  next
    case False
    then show ?thesis using 2 by auto
  qed
next
  case (3 re name w rest missing unused result)
  then show ?case by (auto split: option.splits)
qed auto

lemma loop_result_re:
  "create_terminal_descriptions_loop re ts missing unused result = Inr (missing', unused', result')
   \<Longrightarrow> distinct (map fst ts) \<Longrightarrow> (n, PatternRE v) \<in> set ts \<Longrightarrow> missing' = []
   \<Longrightarrow> \<exists>d. map_of re n = Some d \<and> map_of result' n = Some (d @ '' (re='' @ v @ '')'')"
proof (induction re ts missing unused result rule: create_terminal_descriptions_loop.induct)
  case (2 re name w rest missing unused result)
  then show ?case by auto
next
  case (3 re name w rest missing unused result)
  show ?case
  proof (cases "map_of unused name")
    case None
    then have "name \<in> set missing'"
      using 3(3) loop_missing_mono [of re rest "List.insert name missing" unused
            "AList.update name ''ERROR'' result" missing' unused' result'] by auto
    then show ?thesis using 3(6) by simp
  next
    case (Some u)
    from 3(3) Some obtain d where d: "map_of re name = Some d"
      by (auto split: option.splits)
    have run: "create_terminal_descriptions_loop re rest missing (AList.delete name unused)
       (AList.update name (d @ '' (re='' @ w @ '')'') result) = Inr (missing', unused', result')"
      using 3(3) Some d by simp
    show ?thesis
    proof (cases "(n, PatternRE v) = (name, PatternRE w)")
      case True
      then have "n \<notin> fst ` set rest" using 3(4) by auto
      then show ?thesis using loop_result_other [OF run, of n] True d
        by (simp add: update_conv')
    next
      case False
      then show ?thesis using 3(2) [OF Some d run] 3(4,5,6) by auto
    qed
  qed
qed auto


lemma create_Inr_iff:
  "create_terminal_descriptions parser re = Inr result \<longleftrightarrow>
   create_terminal_descriptions_loop re (terminals parser) [] re [] = Inr ([], [], result)"
  unfolding create_terminal_descriptions_def
  by (auto split: sum.splits prod.splits)

lemma create_failure:
  "create_terminal_descriptions parser re = Inl e \<Longrightarrow> e = AssertionError"
proof -
  assume a: "create_terminal_descriptions parser re = Inl e"
  obtain r where r: "create_terminal_descriptions_loop re (terminals parser) [] re [] = Inr r"
    using loop_no_KeyError [of re re "terminals parser" "[]" "[]"] by auto
  show ?thesis
    using a unfolding create_terminal_descriptions_def r
    by (auto split: prod.splits if_splits)
qed

lemma create_missing_description:
  assumes "(n, PatternRE v) \<in> set (terminals parser)" and "map_of re n = None"
  shows "create_terminal_descriptions parser re = Inl AssertionError"
proof -
  obtain missing' unused' result' where
    r: "create_terminal_descriptions_loop re (terminals parser) [] re [] =
          Inr (missing', unused', result')"
    using loop_no_KeyError [of re re "terminals parser" "[]" "[]"] by (metis prod_cases3)
  have "n \<in> set missing'" using loop_records_missing [OF r assms] .
  then have "missing' \<noteq> []" by auto
  then show ?thesis
    unfolding create_terminal_descriptions_def r by simp
qed

lemma create_redundant_description:
  assumes "map_of re k \<noteq> None" and "k \<notin> fst ` set (terminals parser)"
  shows "create_terminal_descriptions parser re = Inl AssertionError"
proof -
  obtain missing' unused' result' where
    r: "create_terminal_descriptions_loop re (terminals parser) [] re [] =
          Inr (missing', unused', result')"
    using loop_no_KeyError [of re re "terminals parser" "[]" "[]"] by (metis prod_cases3)
  have "map_of unused' k \<noteq> None" using loop_keeps_unused [OF r assms] .
  then have "unused' \<noteq> []" by auto
  then show ?thesis
    unfolding create_terminal_descriptions_def r by simp
qed

lemma load_module_Inr:
  "load_module p1 p2 = Inr g \<Longrightarrow>
   create_terminal_descriptions p1
     [(''CNAME'', ''variable name''), (''INT'', ''integer''), (''WS'', ''whitespace'')] =
     Inr (ARGUMENT_SPEC_TERMINAL_DESCRIPTIONS g)
   \<and> create_terminal_descriptions p2
     [(''ANY'', ''any text''), (''CNAME'', ''variable name''),
      (''INFO_FIELD_OTHER'', ''Sphinx info field''),
      (''PARAM'', ''Sphinx parameter field''),
      (''RETURNS'', ''Sphinx `return` field''),
      (''WS'', ''whitespace'')] = Inr (DOCSTRING_TERMINAL_DESCRIPTIONS g)
   \<and> ARGUMENT_SPEC_CACHE g = Map.empty \<and> SPHINX_DOCSTRING_CACHE g = Map.empty"
  unfolding load_module_def by (auto split: sum.splits)

lemma load_module_Inl1:
  "create_terminal_descriptions p1
     [(''CNAME'', ''variable name''), (''INT'', ''integer''), (''WS'', ''whitespace'')] = Inl e
   \<Longrightarrow> load_module p1 p2 = Inl e"
  unfolding load_module_def by simp

lemma load_module_Inl2:
  "create_terminal_descriptions p2
     [(''ANY'', ''any text''), (''CNAME'', ''variable name''),
      (''INFO_FIELD_OTHER'', ''Sphinx info field''),
      (''PARAM'', ''Sphinx parameter field''),
      (''RETURNS'', ''Sphinx `return` field''),
      (''WS'', ''whitespace'')] = Inl e
   \<Longrightarrow> load_module p1 p2 = Inl AssertionError"
  unfolding load_module_def by (auto split: sum.splits dest: create_failure)

text \<open>
  C9. \<^verbatim>\<open>_create_terminal_descriptions\<close> fails its assertion when a pattern terminal of
  the grammar has no description, and when a description is given for a name that is no
  terminal of the grammar. The two tables are built while the module is loaded: when
  either construction fails, loading fails and there is no module whose functions could
  be called; a loaded module holds the two tables that were built. When the construction
  succeeds, the table describes exactly the terminals of the grammar, and (terminal names
  being distinct) a literal terminal by its quoted literal and a pattern terminal by the
  supplied text followed by the pattern.
\<close>

theorem terminal_descriptions_checked_at_load:
  "((n, PatternRE v) \<in> set (terminals parser) \<and> map_of re n = None
      \<longrightarrow> create_terminal_descriptions parser re = Inl AssertionError)
   \<and> (map_of re k \<noteq> None \<and> k \<notin> fst ` set (terminals parser)
      \<longrightarrow> create_terminal_descriptions parser re = Inl AssertionError)
   \<and> (create_terminal_descriptions p1
         [(''CNAME'', ''variable name''), (''INT'', ''integer''), (''WS'', ''whitespace'')] = Inl e
      \<longrightarrow> load_module p1 p2 = Inl e)
   \<and> (create_terminal_descriptions p2
         [(''ANY'', ''any text''), (''CNAME'', ''variable name''),
          (''INFO_FIELD_OTHER'', ''Sphinx info field''),
          (''PARAM'', ''Sphinx parameter field''),
          (''RETURNS'', ''Sphinx `return` field''),
          (''WS'', ''whitespace'')] = Inl e
      \<longrightarrow> load_module p1 p2 = Inl AssertionError)
   \<and> (load_module p1 p2 = Inr g
      \<longrightarrow> create_terminal_descriptions p1
            [(''CNAME'', ''variable name''), (''INT'', ''integer''), (''WS'', ''whitespace'')] =
            Inr (ARGUMENT_SPEC_TERMINAL_DESCRIPTIONS g)
          \<and> create_terminal_descriptions p2
            [(''ANY'', ''any text''), (''CNAME'', ''variable name''),
             (''INFO_FIELD_OTHER'', ''Sphinx info field''),
             (''PARAM'', ''Sphinx parameter field''),
             (''RETURNS'', ''Sphinx `return` field''),
             (''WS'', ''whitespace'')] = Inr (DOCSTRING_TERMINAL_DESCRIPTIONS g))
   \<and> (create_terminal_descriptions parser re = Inr result
      \<longrightarrow> dom (map_of result) = fst ` set (terminals parser)
          \<and> (distinct (map fst (terminals parser)) \<longrightarrow>
               (\<forall>(name, p) \<in> set (terminals parser).
                  map_of result name =
                    (case p of
                       PatternStr w \<Rightarrow> Some ([CHR 0x22] @ w @ [CHR 0x22])
                     | PatternRE w \<Rightarrow>
                         map_option (\<lambda>d. d @ '' (re='' @ w @ '')'') (map_of re name)))))"
proof (intro conjI impI)
  assume "(n, PatternRE v) \<in> set (terminals parser) \<and> map_of re n = None"
  then show "create_terminal_descriptions parser re = Inl AssertionError"
    using create_missing_description by blast
next
  assume "map_of re k \<noteq> None \<and> k \<notin> fst ` set (terminals parser)"
  then show "create_terminal_descriptions parser re = Inl AssertionError"
    using create_redundant_description by blast
next
  assume "create_terminal_descriptions p1
         [(''CNAME'', ''variable name''), (''INT'', ''integer''), (''WS'', ''whitespace'')] = Inl e"
  then show "load_module p1 p2 = Inl e" by (rule load_module_Inl1)
next
  assume "create_terminal_descriptions p2
         [(''ANY'', ''any text''), (''CNAME'', ''variable name''),
          (''INFO_FIELD_OTHER'', ''Sphinx info field''),
          (''PARAM'', ''Sphinx parameter field''),
          (''RETURNS'', ''Sphinx `return` field''),
          (''WS'', ''whitespace'')] = Inl e"
  then show "load_module p1 p2 = Inl AssertionError" by (rule load_module_Inl2)
next
  assume l: "load_module p1 p2 = Inr g"
  show "create_terminal_descriptions p1
            [(''CNAME'', ''variable name''), (''INT'', ''integer''), (''WS'', ''whitespace'')] =
            Inr (ARGUMENT_SPEC_TERMINAL_DESCRIPTIONS g)"
    using load_module_Inr [OF l] by simp
  show "create_terminal_descriptions p2
            [(''ANY'', ''any text''), (''CNAME'', ''variable name''),
             (''INFO_FIELD_OTHER'', ''Sphinx info field''),
             (''PARAM'', ''Sphinx parameter field''),
             (''RETURNS'', ''Sphinx `return` field''),
             (''WS'', ''whitespace'')] = Inr (DOCSTRING_TERMINAL_DESCRIPTIONS g)"
    using load_module_Inr [OF l] by simp
next
  assume c: "create_terminal_descriptions parser re = Inr result"
  then have r: "create_terminal_descriptions_loop re (terminals parser) [] re [] =
      Inr ([], [], result)"
    by (simp add: create_Inr_iff)
  show "dom (map_of result) = fst ` set (terminals parser)"
    using loop_result_dom [OF r] by simp
  assume d: "distinct (map fst (terminals parser))"
  show "\<forall>(name, p) \<in> set (terminals parser).
          map_of result name =
            (case p of
               PatternStr w \<Rightarrow> Some ([CHR 0x22] @ w @ [CHR 0x22])
             | PatternRE w \<Rightarrow> map_option (\<lambda>d. d @ '' (re='' @ w @ '')'') (map_of re name))"
  proof (clarify)
    fix name p
    assume m: "(name, p) \<in> set (terminals parser)"
    show "map_of result name =
            (case p of
               PatternStr w \<Rightarrow> Some ([CHR 0x22] @ w @ [CHR 0x22])
             | PatternRE w \<Rightarrow> map_option (\<lambda>d. d @ '' (re='' @ w @ '')'') (map_of re name))"
    proof (cases p)
      case (PatternStr w)
      then show ?thesis using loop_result_str [OF r d, of name w] m by simp
    next
      case (PatternRE w)
      then show ?thesis using loop_result_re [OF r d, of name w] m by auto
    qed
  qed
qed

theorem terminal_descriptions_checked_at_load_witness:
  "(let std = [(''CNAME'', ''variable name''), (''INT'', ''integer''), (''WS'', ''whitespace'')];
        reject = (\<lambda>s. Inl (UnexpectedInput 0 []));
        p_ok = \<lparr>terminals = [(''CNAME'', PatternRE ''[a-z]+''), (''INT'', PatternRE ''[0-9]+''),
                   (''WS'', PatternRE ''[ ]+''), (''COLON'', PatternStr '':'')], parse = reject\<rparr>;
        p_more = \<lparr>terminals = [(''CNAME'', PatternRE ''[a-z]+''), (''INT'', PatternRE ''[0-9]+''),
                   (''WS'', PatternRE ''[ ]+''), (''FLOAT'', PatternRE ''[0-9.]+'')],
                   parse = reject\<rparr>;
        p_less = \<lparr>terminals = [(''CNAME'', PatternRE ''[a-z]+''), (''INT'', PatternRE ''[0-9]+'')],
                   parse = reject\<rparr>;
        p_doc = \<lparr>terminals = [(''ANY'', PatternRE ''.''), (''CNAME'', PatternRE ''[a-z]+''),
                   (''INFO_FIELD_OTHER'', PatternRE ''[a-z]+''), (''PARAM'', PatternRE ''param''),
                   (''RETURNS'', PatternRE ''returns?''), (''WS'', PatternRE ''[ ]+'')],
                   parse = reject\<rparr>;
        descriptions = [(''CNAME'', ''variable name (re=[a-z]+)''),
                   (''INT'', ''integer (re=[0-9]+)''), (''WS'', ''whitespace (re=[ ]+)''),
                   (''COLON'', [CHR 0x22, CHR '':'', CHR 0x22])]
    in create_terminal_descriptions p_more std = Inl AssertionError
       \<and> load_module p_more p_doc = Inl AssertionError
       \<and> create_terminal_descriptions p_less std = Inl AssertionError
       \<and> load_module p_ok p_less = Inl AssertionError
       \<and> create_terminal_descriptions p_ok std = Inr descriptions
       \<and> map_sum id ARGUMENT_SPEC_TERMINAL_DESCRIPTIONS (load_module p_ok p_doc) = Inr descriptions
       \<and> dom (map_of descriptions) = {''CNAME'', ''INT'', ''WS'', ''COLON''}
       \<and> map_of descriptions ''INT'' = Some ''integer (re=[0-9]+)''
       \<and> map_of descriptions ''COLON'' = Some [CHR 0x22, CHR '':'', CHR 0x22])"
proof -
  define std where "std = [(''CNAME'', ''variable name''), (''INT'', ''integer''),
    (''WS'', ''whitespace'')]"
  define dstd where "dstd = [(''ANY'', ''any text''), (''CNAME'', ''variable name''),
          (''INFO_FIELD_OTHER'', ''Sphinx info field''),
          (''PARAM'', ''Sphinx parameter field''),
          (''RETURNS'', ''Sphinx `return` field''),
          (''WS'', ''whitespace'')]"
  define reject :: "string \<Rightarrow> UnexpectedInput + node"
    where "reject = (\<lambda>s. Inl (UnexpectedInput 0 []))"
  define p_ok where "p_ok = \<lparr>terminals = [(''CNAME'', PatternRE ''[a-z]+''),
    (''INT'', PatternRE ''[0-9]+''), (''WS'', PatternRE ''[ ]+''), (''COLON'', PatternStr '':'')],
    parse = reject\<rparr>"
  define p_more where "p_more = \<lparr>terminals = [(''CNAME'', PatternRE ''[a-z]+''),
    (''INT'', PatternRE ''[0-9]+''), (''WS'', PatternRE ''[ ]+''),
    (''FLOAT'', PatternRE ''[0-9.]+'')], parse = reject\<rparr>"
  define p_less where "p_less = \<lparr>terminals = [(''CNAME'', PatternRE ''[a-z]+''),
    (''INT'', PatternRE ''[0-9]+'')], parse = reject\<rparr>"
  define p_doc where "p_doc = \<lparr>terminals = [(''ANY'', PatternRE ''.''),
    (''CNAME'', PatternRE ''[a-z]+''), (''INFO_FIELD_OTHER'', PatternRE ''[a-z]+''),
    (''PARAM'', PatternRE ''param''), (''RETURNS'', PatternRE ''returns?''),
    (''WS'', PatternRE ''[ ]+'')], parse = reject\<rparr>"
  define descriptions where "descriptions = [(''CNAME'', ''variable name (re=[a-z]+)''),
    (''INT'', ''integer (re=[0-9]+)''), (''WS'', ''whitespace (re=[ ]+)''),
    (''COLON'', [CHR 0x22, CHR '':'', CHR 0x22])]"
  note T = terminal_descriptions_checked_at_load
  have c1: "create_terminal_descriptions p_more std = Inl AssertionError"
    by (rule T [THEN conjunct1, rule_format, of "''FLOAT''" "''[0-9.]+''"])
      (simp add: p_more_def std_def)
  have l1: "load_module p_more p_doc = Inl AssertionError"
    by (rule T [THEN conjunct2, THEN conjunct2, THEN conjunct1, rule_format])
      (use c1 in \<open>simp add: std_def\<close>)
  have c2: "create_terminal_descriptions p_less std = Inl AssertionError"
    by (rule T [THEN conjunct2, THEN conjunct1, rule_format, of _ "''WS''"])
      (simp add: p_less_def std_def)
  have c2d: "create_terminal_descriptions p_less dstd = Inl AssertionError"
    by (rule T [THEN conjunct2, THEN conjunct1, rule_format, of _ "''WS''"])
      (simp add: p_less_def dstd_def)
  have l2: "load_module p_ok p_less = Inl AssertionError"
    by (rule T [THEN conjunct2, THEN conjunct2, THEN conjunct2, THEN conjunct1, rule_format,
          of _ AssertionError])
      (use c2d in \<open>simp add: dstd_def\<close>)
  have c3: "create_terminal_descriptions p_ok std = Inr descriptions"
    by (simp add: create_terminal_descriptions_def p_ok_def std_def descriptions_def)
  have c4: "\<exists>ds. create_terminal_descriptions p_doc dstd = Inr ds"
    by (simp add: create_terminal_descriptions_def p_doc_def dstd_def)
  then obtain ds where ds: "create_terminal_descriptions p_doc dstd = Inr ds" by blast
  define g where "g = \<lparr>ARGUMENT_SPEC_PARSER = p_ok, DOCSTRING_PARSER = p_doc,
    ARGUMENT_SPEC_TERMINAL_DESCRIPTIONS = descriptions, DOCSTRING_TERMINAL_DESCRIPTIONS = ds,
    ARGUMENT_SPEC_CACHE = Map.empty, SPHINX_DOCSTRING_CACHE = Map.empty\<rparr>"
  have l3: "load_module p_ok p_doc = Inr g"
    using c3 ds unfolding load_module_def g_def std_def dstd_def by simp
  have l4: "create_terminal_descriptions p_ok std = Inr (ARGUMENT_SPEC_TERMINAL_DESCRIPTIONS g)"
    using T [THEN conjunct2, THEN conjunct2, THEN conjunct2, THEN conjunct2, THEN conjunct1,
        rule_format, OF l3]
    unfolding std_def by (rule conjunct1)
  have dm: "dom (map_of descriptions) = fst ` set (terminals p_ok)"
    using T [THEN conjunct2, THEN conjunct2, THEN conjunct2, THEN conjunct2, THEN conjunct2,
        rule_format, OF c3]
    by (rule conjunct1)
  have d: "dom (map_of descriptions) = {''CNAME'', ''INT'', ''WS'', ''COLON''}"
    unfolding dm by (simp add: p_ok_def)
  have dist: "distinct (map fst (terminals p_ok))" by (simp add: p_ok_def)
  note V = T [THEN conjunct2, THEN conjunct2, THEN conjunct2, THEN conjunct2, THEN conjunct2,
        rule_format, OF c3, THEN conjunct2, rule_format, OF dist]
  have v1: "map_of descriptions ''INT'' = Some ''integer (re=[0-9]+)''"
    using V [of "(''INT'', PatternRE ''[0-9]+'')"] by (simp add: p_ok_def std_def)
  have v2: "map_of descriptions ''COLON'' = Some [CHR 0x22, CHR '':'', CHR 0x22]"
    using V [of "(''COLON'', PatternStr '':'')"] by (simp add: p_ok_def)
  have m: "map_sum id ARGUMENT_SPEC_TERMINAL_DESCRIPTIONS (load_module p_ok p_doc) =
      Inr descriptions"
    using l4 c3 unfolding l3 by simp
  show ?thesis
    using c1 l1 c2 l2 c3 m d v1 v2
    unfolding Let_def std_def reject_def p_ok_def p_more_def p_less_def p_doc_def
      descriptions_def
    by (intro conjI)
qed

section \<open>The entry points and their caches\<close>

text \<open>
  C8. When the string is not in the cache and the grammar engine rejects it,
  \<^verbatim>\<open>parse_argument_spec\<close> raises \<^verbatim>\<open>SpecificationParseError\<close>: its result is that
  error and no value. The error holds the context of the caller stacked on a
  \<^verbatim>\<open>LarkUnexpectedInputContext\<close> made of the offending text, the engine's exception (which
  has the position) and the table of terminal descriptions.
\<close>

theorem parse_argument_spec_raises_on_rejected_input:
  assumes "ARGUMENT_SPEC_CACHE g s = None"
    and "parse (ARGUMENT_SPEC_PARSER g) s = Inl e"
  shows "parse_argument_spec g s ctx =
    (Inl (SpecificationParseError
       (StackContext ctx
          (LarkUnexpectedInputContext s e (ARGUMENT_SPEC_TERMINAL_DESCRIPTIONS g)))), g)"
  using assms by (simp add: parse_argument_spec_def)

theorem parse_argument_spec_raises_on_rejected_input_witness:
  "(let p = \<lparr>terminals = [(''INT'', PatternRE ''[0-9]+'')],
              parse = (\<lambda>s. Inl (UnexpectedInput 4 [''RSQB'', ''INT'']))\<rparr>;
        g = \<lparr>ARGUMENT_SPEC_PARSER = p, DOCSTRING_PARSER = p,
             ARGUMENT_SPEC_TERMINAL_DESCRIPTIONS = [(''INT'', ''integer (re=[0-9]+)'')],
             DOCSTRING_TERMINAL_DESCRIPTIONS = [],
             ARGUMENT_SPEC_CACHE = Map.empty, SPHINX_DOCSTRING_CACHE = Map.empty\<rparr>
    in ARGUMENT_SPEC_CACHE g ''a: ['' = None
       \<and> parse (ARGUMENT_SPEC_PARSER g) ''a: ['' = Inl (UnexpectedInput 4 [''RSQB'', ''INT''])
       \<and> parse_argument_spec g ''a: ['' (CallerContext ''f'') =
           (Inl (SpecificationParseError
              (StackContext (CallerContext ''f'')
                 (LarkUnexpectedInputContext ''a: ['' (UnexpectedInput 4 [''RSQB'', ''INT''])
                    [(''INT'', ''integer (re=[0-9]+)'')]))), g))"
proof -
  define p where "p = \<lparr>terminals = [(''INT'', PatternRE ''[0-9]+'')],
              parse = (\<lambda>s::string. (Inl (UnexpectedInput 4 [''RSQB'', ''INT'']))
                :: UnexpectedInput + node)\<rparr>"
  define g where "g = \<lparr>ARGUMENT_SPEC_PARSER = p, DOCSTRING_PARSER = p,
             ARGUMENT_SPEC_TERMINAL_DESCRIPTIONS = [(''INT'', ''integer (re=[0-9]+)'')],
             DOCSTRING_TERMINAL_DESCRIPTIONS = [],
             ARGUMENT_SPEC_CACHE = Map.empty, SPHINX_DOCSTRING_CACHE = Map.empty\<rparr>"
  have a: "ARGUMENT_SPEC_CACHE g ''a: ['' = None" by (simp add: g_def)
  have b: "parse (ARGUMENT_SPEC_PARSER g) ''a: ['' = Inl (UnexpectedInput 4 [''RSQB'', ''INT''])"
    by (simp add: g_def p_def)
  have c: "ARGUMENT_SPEC_TERMINAL_DESCRIPTIONS g = [(''INT'', ''integer (re=[0-9]+)'')]"
    by (simp add: g_def)
  show ?thesis
    using a b parse_argument_spec_raises_on_rejected_input [OF a b, of "CallerContext ''f''"]
    unfolding c unfolding Let_def g_def p_def by simp
qed

text \<open>
  C1 (the code differs). Neither entry point ever stores into its cache: the module after
  a call is the module before it, whatever the call returns. A successful parse of
  \<^verbatim>\<open>a: [3]\<close> on empty caches returns the parsed specification and leaves the cache of
  argument specifications without an entry for \<^verbatim>\<open>a: [3]\<close>.
\<close>

theorem entry_points_never_store_in_caches:
  "snd (parse_argument_spec g s ctx) = g
   \<and> snd (parse_and_rewrite_sphinx_docstring repr g docstr specs ctx) = g
   \<and> snd (parse_and_rewrite_docstring repr fmt g opt_docstr specs ctx) = g
   \<and> (let tree = Tree ''argument_spec''
          [Tree ''argument_name'' [Token ''a''] (Meta 0 1),
           Tree ''argument_refs'' [] EmptyMeta,
           Tree ''shape_spec''
             [Tree ''dimension_specs'' [Tree ''dimension_spec_constant'' [Token ''3''] (Meta 4 5)]
                (Meta 4 5)] (Meta 3 6)] (Meta 0 6);
           p = \<lparr>terminals = [], parse = (\<lambda>s. Inr tree)\<rparr>;
           g0 = \<lparr>ARGUMENT_SPEC_PARSER = p, DOCSTRING_PARSER = p,
             ARGUMENT_SPEC_TERMINAL_DESCRIPTIONS = [], DOCSTRING_TERMINAL_DESCRIPTIONS = [],
             ARGUMENT_SPEC_CACHE = Map.empty, SPHINX_DOCSTRING_CACHE = Map.empty\<rparr>
       in fst (parse_argument_spec g0 ''a: [3]'' (CallerContext ''f'')) =
            Inr (ParsedArgumentSpec (RootArgumentRef ''a'')
              (ParsedShapeSpec [\<lparr>constant = Some 3, variable_name = None, variable_rank = False\<rparr>]))
          \<and> ARGUMENT_SPEC_CACHE
               (snd (parse_argument_spec g0 ''a: [3]'' (CallerContext ''f''))) ''a: [3]'' = None)"
proof (intro conjI)
  show "snd (parse_argument_spec g s ctx) = g"
    by (simp add: parse_argument_spec_def split: option.splits sum.splits)
  show s: "snd (parse_and_rewrite_sphinx_docstring repr g docstr specs ctx) = g" for docstr
    by (simp add: parse_and_rewrite_sphinx_docstring_def split: option.splits sum.splits)
  have "snd (case parse_and_rewrite_sphinx_docstring repr g d specs ctx of
               (r, g') \<Rightarrow> (map_sum id Some r, g')) = g" for d
    using s [of d] by (cases "parse_and_rewrite_sphinx_docstring repr g d specs ctx") simp
  then show "snd (parse_and_rewrite_docstring repr fmt g opt_docstr specs ctx) = g"
    by (simp add: parse_and_rewrite_docstring_def split: option.splits DocstringFormat.splits)
  show "let tree = Tree ''argument_spec''
          [Tree ''argument_name'' [Token ''a''] (Meta 0 1),
           Tree ''argument_refs'' [] EmptyMeta,
           Tree ''shape_spec''
             [Tree ''dimension_specs'' [Tree ''dimension_spec_constant'' [Token ''3''] (Meta 4 5)]
                (Meta 4 5)] (Meta 3 6)] (Meta 0 6);
           p = \<lparr>terminals = [], parse = (\<lambda>s. Inr tree)\<rparr>;
           g0 = \<lparr>ARGUMENT_SPEC_PARSER = p, DOCSTRING_PARSER = p,
             ARGUMENT_SPEC_TERMINAL_DESCRIPTIONS = [], DOCSTRING_TERMINAL_DESCRIPTIONS = [],
             ARGUMENT_SPEC_CACHE = Map.empty, SPHINX_DOCSTRING_CACHE = Map.empty\<rparr>
       in fst (parse_argument_spec g0 ''a: [3]'' (CallerContext ''f'')) =
            Inr (ParsedArgumentSpec (RootArgumentRef ''a'')
              (ParsedShapeSpec [\<lparr>constant = Some 3, variable_name = None, variable_rank = False\<rparr>]))
          \<and> ARGUMENT_SPEC_CACHE
               (snd (parse_argument_spec g0 ''a: [3]'' (CallerContext ''f''))) ''a: [3]'' = None"
    by (simp add: Let_def parse_argument_spec_def tree_children_def py_int_3)
qed

section \<open>Indentation\<close>

lemma lstrip_Nil_iff: "lstrip line = [] \<longleftrightarrow> list_all isspace line"
  by (simp add: lstrip_def dropWhile_eq_Nil_conv list_all_iff)

lemma line_indent_eq:
  "int (length line) - int (length (lstrip line)) = int (leading_whitespace_width line)"
proof -
  have "length (takeWhile isspace line) + length (dropWhile isspace line) = length line"
    by (metis length_append takeWhile_dropWhile_id)
  then show ?thesis by (simp add: lstrip_def leading_whitespace_width_def)
qed

lemma Min_set_Cons:
  fixes w :: int
  shows "Min (set (w # ws)) = (if ws = [] then w else min w (Min (set ws)))"
  by (cases ws) (simp_all add: Min_insert)

lemma guess_indent_loop_eq:
  "ind = no_indent \<or> 0 \<le> ind \<Longrightarrow>
   guess_indent_loop ls ind =
     (let ws = map (\<lambda>line. int (leading_whitespace_width line))
                 (filter (\<lambda>line. \<not> list_all isspace line) ls)
      in if ws = [] then ind
         else if ind = no_indent then Min (set ws) else min ind (Min (set ws)))"
proof (induction ls arbitrary: ind)
  case Nil
  then show ?case by simp
next
  case (Cons line rest)
  define w where "w = int (leading_whitespace_width line)"
  define ws where "ws = map (\<lambda>line. int (leading_whitespace_width line))
                 (filter (\<lambda>line. \<not> list_all isspace line) rest)"
  have w0: "0 \<le> w" "w \<noteq> no_indent" by (simp_all add: no_indent_def w_def)
  have IH: "i = no_indent \<or> 0 \<le> i \<Longrightarrow> guess_indent_loop rest i =
      (if ws = [] then i else if i = no_indent then Min (set ws) else min i (Min (set ws)))" for i
    using Cons.IH [of i] by (simp add: Let_def ws_def)
  show ?case
  proof (cases "list_all isspace line")
    case True
    then have "guess_indent_loop (line # rest) ind = guess_indent_loop rest ind"
      by (simp add: lstrip_Nil_iff)
    then show ?thesis using IH [OF Cons.prems] True by (simp add: Let_def ws_def)
  next
    case False
    have goal: "(let ws = map (\<lambda>line. int (leading_whitespace_width line))
                 (filter (\<lambda>line. \<not> list_all isspace line) (line # rest))
      in if ws = [] then ind
         else if ind = no_indent then Min (set ws) else min ind (Min (set ws))) =
      (if ind = no_indent then Min (set (w # ws)) else min ind (Min (set (w # ws))))"
      using False by (simp add: Let_def ws_def w_def)
    show ?thesis
    proof (cases "ind = no_indent \<or> w < ind")
      case True
      have "guess_indent_loop (line # rest) ind = guess_indent_loop rest w"
        using False True by (simp add: lstrip_Nil_iff line_indent_eq Let_def w_def)
      also have "\<dots> = (if ws = [] then w else min w (Min (set ws)))"
        using IH [of w] w0 by simp
      also have "\<dots> = Min (set (w # ws))"
        by (simp only: Min_set_Cons)
      also have "\<dots> = (if ind = no_indent then Min (set (w # ws))
                        else min ind (Min (set (w # ws))))"
      proof (cases "ind = no_indent")
        case True
        then show ?thesis by simp
      next
        case nf: False
        then have "w < ind" using True by simp
        moreover have "Min (set (w # ws)) \<le> w" by (intro Min_le) auto
        ultimately have "min ind (Min (set (w # ws))) = Min (set (w # ws))"
          by (intro min_absorb2) linarith
        then show ?thesis using nf by (simp only: if_False)
      qed
      finally show ?thesis unfolding goal .
    next
      case nb: False
      then have i: "ind \<noteq> no_indent" "ind \<le> w" by auto
      then have i0: "0 \<le> ind" using Cons.prems by simp
      have "guess_indent_loop (line # rest) ind = guess_indent_loop rest ind"
        using False nb by (simp add: lstrip_Nil_iff line_indent_eq Let_def w_def)
      also have "\<dots> = (if ws = [] then ind else min ind (Min (set ws)))"
        using IH [of ind] i0 i by simp
      also have "\<dots> = min ind (Min (set (w # ws)))"
        using i by (simp only: Min_set_Cons) (auto simp: min_def)
      finally show ?thesis unfolding goal using i by simp
    qed
  qed
qed

lemma guess_indent_eq_spec: "guess_indent docstr = spec_guess_indent docstr"
proof -
  define ls where "ls = tl (splitlines (expandtabs docstr))"
  define ws where "ws = map (\<lambda>line. int (leading_whitespace_width line))
                 (filter (\<lambda>line. \<not> list_all isspace line) ls)"
  have l: "guess_indent_loop ls no_indent = (if ws = [] then no_indent else Min (set ws))"
    using guess_indent_loop_eq [of no_indent ls] by (simp add: Let_def ws_def)
  have nn: "Min (set ws) \<noteq> no_indent" if ne: "ws \<noteq> []"
  proof -
    have "Min (set ws) \<in> set ws" using ne by (intro Min_in) simp_all
    then have "0 \<le> Min (set ws)" unfolding ws_def by auto
    then show ?thesis by (simp add: no_indent_def)
  qed
  have e: "ws = [] \<longleftrightarrow> filter (\<lambda>line. \<not> list_all isspace line) ls = []"
    by (simp add: ws_def)
  have "guess_indent docstr = (if ws = [] then None else Some (Min (set ws)))"
    unfolding guess_indent_def Let_def ls_def [symmetric] l using nn by simp
  also have "\<dots> = spec_guess_indent docstr"
    unfolding spec_guess_indent_def Let_def ls_def [symmetric] e ws_def by simp
  finally show ?thesis .
qed

lemma insert_spec_lines_loop_eq:
  "insert_spec_lines_loop indent_str lines out =
     out @ concat (map (\<lambda>l. [indent_str, l]) lines)"
  by (induction lines arbitrary: out) simp_all

lemma insert_spec_lines_eq:
  "insert_spec_lines self out pos lines (Tree d cs (Meta s e)) =
     Inr (out @ [rstrip (slice (source self) pos s)]
            @ concat (map (\<lambda>l. [CHR 0x0A # replicate
                 (spec_line_indent self (docs_text self pos s e)) (CHR 0x20), l]) lines)
            @ [[CHR 0x0A],
               CHR 0x0A # replicate (spec_line_indent self (docs_text self pos s e)) (CHR 0x20),
               lstrip (docs_text self pos s e)], e)"
  by (simp add: Let_def insert_spec_lines_loop_eq docs_text_def spec_line_indent_def
      split: option.splits)

text \<open>
  C6. \<^verbatim>\<open>_guess_indent\<close> returns the least leading-whitespace width over the non-blank
  lines after the first one, tabs expanded to the next multiple of 8, and nothing (not
  zero) when there is no such line; the rewriter keeps that value for the whole text.
  \<^verbatim>\<open>_insert_spec_lines\<close> emits the header, then each spec line after a line feed and the
  indentation, then an empty line, the indentation and the docs text, where the
  indentation is the one inferred from the field's docs text when there is one, else the
  base indentation plus 4, else 4.
\<close>

theorem guess_indent_and_spec_line_indentation:
  "guess_indent docstr = spec_guess_indent docstr
   \<and> indent (init repr src specs) = spec_guess_indent src
   \<and> insert_spec_lines self out pos lines (Tree d cs (Meta s e)) =
       Inr (out @ [rstrip (slice (source self) pos s)]
              @ concat (map (\<lambda>l. [CHR 0x0A # replicate
                   (spec_line_indent self (docs_text self pos s e)) (CHR 0x20), l]) lines)
              @ [[CHR 0x0A],
                 CHR 0x0A # replicate (spec_line_indent self (docs_text self pos s e)) (CHR 0x20),
                 lstrip (docs_text self pos s e)], e)
   \<and> spec_line_indent self docs_str =
       (case spec_guess_indent docs_str of
          Some i \<Rightarrow> nat i
        | None \<Rightarrow> (case indent self of Some b \<Rightarrow> nat (b + 4) | None \<Rightarrow> 4))
   \<and> guess_indent ''abc'' = None
   \<and> guess_indent (''a'' @ [CHR 0x0A] @ ''  b'' @ [CHR 0x0A, CHR 0x09] @ ''c'') = Some 2
   \<and> guess_indent (''a'' @ [CHR 0x0A, CHR 0x20, CHR 0x09] @ ''c'') = Some 8
   \<and> guess_indent (''a'' @ [CHR 0x0A, CHR 0x0A, CHR 0x20, CHR 0x20, CHR 0x0A]) = None"
proof (intro conjI)
  show "guess_indent docstr = spec_guess_indent docstr"
    by (rule guess_indent_eq_spec)
  show "indent (init repr src specs) = spec_guess_indent src"
    by (simp add: init_def guess_indent_eq_spec)
  show "insert_spec_lines self out pos lines (Tree d cs (Meta s e)) =
       Inr (out @ [rstrip (slice (source self) pos s)]
              @ concat (map (\<lambda>l. [CHR 0x0A # replicate
                   (spec_line_indent self (docs_text self pos s e)) (CHR 0x20), l]) lines)
              @ [[CHR 0x0A],
                 CHR 0x0A # replicate (spec_line_indent self (docs_text self pos s e)) (CHR 0x20),
                 lstrip (docs_text self pos s e)], e)"
    by (rule insert_spec_lines_eq)
  show "spec_line_indent self docs_str =
       (case spec_guess_indent docs_str of
          Some i \<Rightarrow> nat i
        | None \<Rightarrow> (case indent self of Some b \<Rightarrow> nat (b + 4) | None \<Rightarrow> 4))"
    by (simp add: spec_line_indent_def guess_indent_eq_spec)
  show "guess_indent ''abc'' = None"
    by code_simp
  show "guess_indent (''a'' @ [CHR 0x0A] @ ''  b'' @ [CHR 0x0A, CHR 0x09] @ ''c'') = Some 2"
    by code_simp
  show "guess_indent (''a'' @ [CHR 0x0A, CHR 0x20, CHR 0x09] @ ''c'') = Some 8"
    by code_simp
  show "guess_indent (''a'' @ [CHR 0x0A, CHR 0x0A, CHR 0x20, CHR 0x20, CHR 0x0A]) = None"
    by code_simp
qed

section \<open>The rewriter\<close>

lemma argument_specs_to_sphinx_loop_eq:
  "argument_specs_to_sphinx_loop repr specs result k =
     (let new = map (argument_spec_to_sphinx repr)
                  (filter (\<lambda>s. root_argument_name (argument_ref s) = k) specs)
      in if new = [] then result k
         else Some ((case result k of None \<Rightarrow> [] | Some ls \<Rightarrow> ls) @ new))"
proof (induction specs arbitrary: result)
  case Nil
  then show ?case by simp
next
  case (Cons spec rest)
  show ?case
    by (cases "root_argument_name (argument_ref spec) = k")
      (simp_all add: Cons.IH Let_def)
qed

lemma spec_lines_init:
  "spec_lines (init repr src specs) k =
     (let new = map (argument_spec_to_sphinx repr)
                  (filter (\<lambda>s. root_argument_name (argument_ref s) = k) specs)
      in if new = [] then None else Some (sort new))"
  by (simp add: init_def argument_specs_to_sphinx_def argument_specs_to_sphinx_loop_eq Let_def)

lemma spec_lines_init_None_iff:
  "spec_lines (init repr src specs) k = None \<longleftrightarrow>
   k \<notin> (\<lambda>s. root_argument_name (argument_ref s)) ` set specs"
  by (auto simp: spec_lines_init Let_def filter_empty_conv)

lemma sort_Nil_iff: "sort (xs :: string list) = [] \<longleftrightarrow> xs = []"
  using length_sort [of "\<lambda>x. x" xs] by (metis length_0_conv)

lemma spec_lines_init_Some:
  "spec_lines (init repr src specs) k = Some ls \<Longrightarrow> ls \<noteq> []"
  by (auto simp: spec_lines_init Let_def sort_Nil_iff split: if_splits)

lemma info_field_param_wf:
  "tree_children cs = [Tree ''info_field_args'' acs am, docs] \<Longrightarrow>
   info_field_param self (Tree d cs m) out pos =
     (case spec_lines self (if token_children acs = [] then [] else last (token_children acs)) of
        None \<Rightarrow> Inr (out, pos)
      | Some lines \<Rightarrow>
          if lines \<noteq> [] then insert_spec_lines self out pos lines docs else Inr (out, pos))"
  by (simp add: Let_def)

lemma wf_info_field_cases:
  assumes "wf_info_field f"
  obtains (param) cs m acs am docs where "f = Tree ''info_field_param'' cs m"
      and "tree_children cs = [Tree ''info_field_args'' acs am, docs]"
    | (returns) cs m docs where "f = Tree ''info_field_returns'' cs m"
      and "tree_children cs = [docs]"
    | (other) cs m where "f = Tree ''info_field_other'' cs m"
proof (cases f)
  case (Token v)
  then show ?thesis using assms by simp
next
  case (Tree name cs m)
  show ?thesis
  proof (cases "name = ''info_field_param''")
    case True
    then obtain acs am docs where "tree_children cs = [Tree ''info_field_args'' acs am, docs]"
      using assms unfolding Tree by (auto split: list.splits node.splits)
    then show ?thesis using param Tree True by blast
  next
    case np: False
    show ?thesis
    proof (cases "name = ''info_field_returns''")
      case True
      then obtain docs where "tree_children cs = [docs]"
        using assms unfolding Tree by (auto split: list.splits)
      then show ?thesis using returns Tree True by blast
    next
      case False
      then have "name = ''info_field_other''" using assms np unfolding Tree by simp
      then show ?thesis using other Tree by blast
    qed
  qed
qed

lemma field_lookup:
  assumes "wf_info_field f"
  shows "(field_key f = None \<and> visit_pos self f out pos = Inr (out, pos))
     \<or> (\<exists>k docs. field_key f = Some k \<and> field_docs f = Some docs
          \<and> visit_pos self f out pos =
              (case spec_lines self k of
                 None \<Rightarrow> Inr (out, pos)
               | Some lines \<Rightarrow>
                   if lines \<noteq> [] then insert_spec_lines self out pos lines docs
                   else Inr (out, pos)))"
  using assms
proof (cases f rule: wf_info_field_cases)
  case (param cs m acs am docs)
  define k where "k = (if token_children acs = [] then [] else last (token_children acs))"
  have "field_key f = Some k" by (simp add: param k_def)
  moreover have "field_docs f = Some docs" by (simp add: param)
  moreover have "visit_pos self f out pos =
              (case spec_lines self k of
                 None \<Rightarrow> Inr (out, pos)
               | Some lines \<Rightarrow>
                   if lines \<noteq> [] then insert_spec_lines self out pos lines docs
                   else Inr (out, pos))"
    unfolding param(1) k_def
    using info_field_param_wf [OF param(2), of self "''info_field_param''" m out pos]
    by (simp del: info_field_param.simps)
  ultimately show ?thesis by blast
next
  case (returns cs m docs)
  have "field_key f = Some RESULT_TOKEN" by (simp add: returns)
  moreover have "field_docs f = Some docs" by (simp add: returns)
  moreover have "visit_pos self f out pos =
              (case spec_lines self RESULT_TOKEN of
                 None \<Rightarrow> Inr (out, pos)
               | Some lines \<Rightarrow>
                   if lines \<noteq> [] then insert_spec_lines self out pos lines docs
                   else Inr (out, pos))"
    by (simp add: returns)
  ultimately show ?thesis by blast
next
  case (other cs m)
  then show ?thesis by (simp add: info_field_other_def)
qed

lemma visit_pos_unmatched:
  assumes "wf_info_field f" and "\<not> matched self f"
  shows "visit_pos self f out pos = Inr (out, pos)"
  using field_lookup [OF assms(1), of self out pos] assms(2)
  unfolding matched_def by (auto split: option.splits)

lemma visit_pos_matched:
  assumes "wf_info_field f" and "matched self f"
  shows "\<exists>k lines docs. field_key f = Some k \<and> spec_lines self k = Some lines \<and> lines \<noteq> []
     \<and> field_docs f = Some docs
     \<and> visit_pos self f out pos = insert_spec_lines self out pos lines docs"
  using field_lookup [OF assms(1), of self out pos] assms(2)
  unfolding matched_def by (auto split: option.splits)

lemma info_fields_loop_unmatched:
  "list_all wf_info_field fs \<Longrightarrow> list_all (\<lambda>f. \<not> matched self f) fs \<Longrightarrow>
   info_fields_loop self fs out pos = Inr (out, pos)"
  by (induction fs) (simp_all add: visit_pos_unmatched)

lemma docstring_wf:
  assumes "wf_docstring_tree t"
  shows "visit_str self t =
     (case info_fields_loop self (fields_of t) [] 0 of
        Inl e \<Rightarrow> Inl e
      | Inr (out, pos) \<Rightarrow> Inr (concat out @ slice_from (source self) pos))"
proof (cases t)
  case (Tree name cs m)
  from assms obtain docs f fs fm where
    tc: "tree_children cs = [docs, Tree f fs fm]" and f: "f = ''info_fields''"
    and n: "name = ''docstring''"
    unfolding Tree by (auto split: list.splits node.splits)
  show ?thesis
    unfolding Tree by (simp add: n tc f split: sum.splits)
next
  case (Token v)
  then show ?thesis using assms by simp
qed

lemma fields_of_wf: "wf_docstring_tree t \<Longrightarrow> list_all wf_info_field (fields_of t)"
  by (cases t) (auto split: list.splits node.splits)

lemma unmatched_init:
  assumes "\<forall>f \<in> set fs. \<forall>k. field_key f = Some k \<longrightarrow>
      k \<notin> (\<lambda>s. root_argument_name (argument_ref s)) ` set specs"
  shows "list_all (\<lambda>f. \<not> matched (init repr src specs) f) fs"
  unfolding list_all_iff
proof (intro ballI)
  fix f
  assume f: "f \<in> set fs"
  show "\<not> matched (init repr src specs) f"
  proof (cases "field_key f")
    case None
    then show ?thesis by (simp add: matched_def)
  next
    case (Some k)
    then have "k \<notin> (\<lambda>s. root_argument_name (argument_ref s)) ` set specs"
      using assms f by blast
    then have "spec_lines (init repr src specs) k = None"
      by (rule iffD2 [OF spec_lines_init_None_iff])
    then show ?thesis by (simp add: matched_def Some)
  qed
qed

text \<open>
  C3. When the tree has the shape the grammar gives it and no field's key (the argument
  name of a parameter field, the result token for a returns field) is the root argument
  name of a supplied specification, the rewriter returns the original text, and so does
  the sphinx entry point on a cache miss.
\<close>

theorem rewrite_is_identity_without_matching_field:
  assumes "wf_docstring_tree t"
    and "\<forall>f \<in> set (fields_of t). \<forall>k. field_key f = Some k \<longrightarrow>
      k \<notin> (\<lambda>s. root_argument_name (argument_ref s)) ` set specs"
  shows "visit_str (init repr src specs) t = Inr src
    \<and> (SPHINX_DOCSTRING_CACHE g (src, specs) = None \<and> parse (DOCSTRING_PARSER g) src = Inr t
       \<longrightarrow> fst (parse_and_rewrite_sphinx_docstring repr g src specs ctx) = Inr src)"
proof -
  have "info_fields_loop (init repr src specs) (fields_of t) [] 0 = Inr ([], 0)"
    using fields_of_wf [OF assms(1)] unmatched_init [OF assms(2)]
    by (rule info_fields_loop_unmatched)
  then have v: "visit_str (init repr src specs) t = Inr src"
    using docstring_wf [OF assms(1), of "init repr src specs"]
    by (simp add: slice_from_def init_def)
  then show ?thesis
    by (simp add: parse_and_rewrite_sphinx_docstring_def)
qed

theorem rewrite_is_identity_without_matching_field_witness:
  "(let src = '':param x: the input'' @ [CHR 0x0A] @ '':returns: the output'';
        t = Tree ''docstring''
              [Tree ''docs'' [] EmptyMeta,
               Tree ''info_fields''
                 [Tree ''info_field_param''
                    [Token ''param'',
                     Tree ''info_field_args'' [Token '' '', Token ''x''] (Meta 6 8),
                     Tree ''docs'' [Token '' the input''] (Meta 9 19)] (Meta 0 19),
                  Tree ''info_field_returns''
                    [Token ''returns'', Tree ''docs'' [Token '' the output''] (Meta 29 40)]
                    (Meta 20 40)] (Meta 0 40)] (Meta 0 40);
        specs = [ParsedArgumentSpec (RootArgumentRef ''y'')
                   (ParsedShapeSpec [\<lparr>constant = Some 3, variable_name = None,
                      variable_rank = False\<rparr>])];
        p = \<lparr>terminals = [], parse = (\<lambda>s. Inr t)\<rparr>;
        g = \<lparr>ARGUMENT_SPEC_PARSER = p, DOCSTRING_PARSER = p,
             ARGUMENT_SPEC_TERMINAL_DESCRIPTIONS = [], DOCSTRING_TERMINAL_DESCRIPTIONS = [],
             ARGUMENT_SPEC_CACHE = Map.empty, SPHINX_DOCSTRING_CACHE = Map.empty\<rparr>
    in wf_docstring_tree t
       \<and> map field_key (fields_of t) = [Some ''x'', Some ''return'']
       \<and> map (\<lambda>s. root_argument_name (argument_ref s)) specs = [''y'']
       \<and> visit_str (init root_argument_name src specs) t = Inr src
       \<and> SPHINX_DOCSTRING_CACHE g (src, specs) = None
       \<and> parse (DOCSTRING_PARSER g) src = Inr t
       \<and> fst (parse_and_rewrite_sphinx_docstring root_argument_name g src specs
                 (CallerContext ''f'')) = Inr src)"
proof -
  define src where "src = '':param x: the input'' @ [CHR 0x0A] @ '':returns: the output''"
  define t where "t = Tree ''docstring''
              [Tree ''docs'' [] EmptyMeta,
               Tree ''info_fields''
                 [Tree ''info_field_param''
                    [Token ''param'',
                     Tree ''info_field_args'' [Token '' '', Token ''x''] (Meta 6 8),
                     Tree ''docs'' [Token '' the input''] (Meta 9 19)] (Meta 0 19),
                  Tree ''info_field_returns''
                    [Token ''returns'', Tree ''docs'' [Token '' the output''] (Meta 29 40)]
                    (Meta 20 40)] (Meta 0 40)] (Meta 0 40)"
  define specs where "specs = [ParsedArgumentSpec (RootArgumentRef ''y'')
                   (ParsedShapeSpec [\<lparr>constant = Some 3, variable_name = None,
                      variable_rank = False\<rparr>])]"
  define p where "p = \<lparr>terminals = [],
    parse = (\<lambda>s::string. (Inr t) :: UnexpectedInput + node)\<rparr>"
  define g where "g = \<lparr>ARGUMENT_SPEC_PARSER = p, DOCSTRING_PARSER = p,
             ARGUMENT_SPEC_TERMINAL_DESCRIPTIONS = [], DOCSTRING_TERMINAL_DESCRIPTIONS = [],
             ARGUMENT_SPEC_CACHE = Map.empty, SPHINX_DOCSTRING_CACHE = Map.empty\<rparr>"
  have miss: "SPHINX_DOCSTRING_CACHE g (src, specs) = None"
    by (simp add: g_def)
  have parsed: "parse (DOCSTRING_PARSER g) src = Inr t"
    by (simp add: g_def p_def)
  have wf: "wf_docstring_tree t"
    by (simp add: t_def tree_children_def)
  have keys: "map field_key (fields_of t) = [Some ''x'', Some ''return'']"
    by (simp add: t_def tree_children_def RESULT_TOKEN_def)
  have names: "map (\<lambda>s. root_argument_name (argument_ref s)) specs = [''y'']"
    by (simp add: specs_def)
  have "set (map field_key (fields_of t)) = {Some ''x'', Some ''return''}"
    unfolding keys by simp
  then have k: "field_key f = Some ''x'' \<or> field_key f = Some ''return''"
    if "f \<in> set (fields_of t)" for f
    using that by auto
  have "(\<lambda>s. root_argument_name (argument_ref s)) ` set specs = {''y''}"
    using names by (simp add: specs_def)
  then have im: "(\<lambda>s. root_argument_name (argument_ref s)) ` set specs = {''y''}" .
  have hyp: "\<forall>f \<in> set (fields_of t). \<forall>k. field_key f = Some k \<longrightarrow>
      k \<notin> (\<lambda>s. root_argument_name (argument_ref s)) ` set specs"
  proof (intro ballI allI impI)
    fix f k
    assume "f \<in> set (fields_of t)" and "field_key f = Some k"
    then have "k = ''x'' \<or> k = ''return''" using k [of f] by simp
    then show "k \<notin> (\<lambda>s. root_argument_name (argument_ref s)) ` set specs"
      unfolding im by (elim disjE) simp_all
  qed
  have v: "visit_str (init root_argument_name src specs) t = Inr src"
    using rewrite_is_identity_without_matching_field [OF wf hyp] by (rule conjunct1)
  have e: "fst (parse_and_rewrite_sphinx_docstring root_argument_name g src specs
                 (CallerContext ''f'')) = Inr src"
    using rewrite_is_identity_without_matching_field [OF wf hyp, THEN conjunct2, rule_format,
        of g src "root_argument_name" "CallerContext ''f''"] miss parsed
    by blast
  show ?thesis
    using wf keys names v miss parsed e
    unfolding Let_def src_def t_def specs_def p_def g_def by (intro conjI)
qed

text \<open>
  C10 (amended). \<^verbatim>\<open>info_field_args\<close> returns the last token of the node, and the empty
  string when the node has no token. A parameter field looks its spec lines up under that
  name. With no token the key is empty, which has spec lines exactly when some
  specification has an empty root argument name. Such a field is left untouched when no
  specification has an empty root argument name, and is handled without error when its
  docs node carries positions; when a specification has an empty root argument name and
  the docs node carries no positions (an empty docs node), the field raises
  \<^verbatim>\<open>AttributeError\<close>.
\<close>

theorem param_field_key_is_last_token:
  "info_field_args (Tree d acs am) =
     Inr (if token_children acs = [] then [] else last (token_children acs))
   \<and> (tree_children cs = [Tree ''info_field_args'' acs am, docs] \<longrightarrow>
        info_field_param self (Tree d' cs m) out pos =
          (case spec_lines self
                  (if token_children acs = [] then [] else last (token_children acs)) of
             None \<Rightarrow> Inr (out, pos)
           | Some lines \<Rightarrow>
               if lines \<noteq> [] then insert_spec_lines self out pos lines docs
               else Inr (out, pos)))
   \<and> (spec_lines (init repr src specs) [] \<noteq> None \<longleftrightarrow>
        (\<exists>s \<in> set specs. root_argument_name (argument_ref s) = []))
   \<and> (tree_children cs = [Tree ''info_field_args'' acs am, Tree dd dcs (Meta s e)]
        \<and> token_children acs = [] \<longrightarrow>
        (\<exists>r. info_field_param (init repr src specs) (Tree d' cs m) out pos = Inr r))
   \<and> (tree_children cs = [Tree ''info_field_args'' acs am, docs] \<and> token_children acs = []
        \<and> [] \<notin> (\<lambda>s. root_argument_name (argument_ref s)) ` set specs \<longrightarrow>
        info_field_param (init repr src specs) (Tree d' cs m) out pos = Inr (out, pos))
   \<and> (tree_children cs = [Tree ''info_field_args'' acs am, Tree dd dcs EmptyMeta]
        \<and> token_children acs = []
        \<and> [] \<in> (\<lambda>s. root_argument_name (argument_ref s)) ` set specs \<longrightarrow>
        info_field_param (init repr src specs) (Tree d' cs m) out pos = Inl AttributeError)"
proof (intro conjI impI)
  show "info_field_args (Tree d acs am) =
     Inr (if token_children acs = [] then [] else last (token_children acs))"
    by (simp add: Let_def)
next
  assume "tree_children cs = [Tree ''info_field_args'' acs am, docs]"
  then show "info_field_param self (Tree d' cs m) out pos =
          (case spec_lines self
                  (if token_children acs = [] then [] else last (token_children acs)) of
             None \<Rightarrow> Inr (out, pos)
           | Some lines \<Rightarrow>
               if lines \<noteq> [] then insert_spec_lines self out pos lines docs
               else Inr (out, pos))"
    by (rule info_field_param_wf)
next
  show "spec_lines (init repr src specs) [] \<noteq> None \<longleftrightarrow>
        (\<exists>s \<in> set specs. root_argument_name (argument_ref s) = [])"
    unfolding spec_lines_init_None_iff by force
next
  assume a: "tree_children cs = [Tree ''info_field_args'' acs am, Tree dd dcs (Meta s e)]
        \<and> token_children acs = []"
  have "info_field_param (init repr src specs) (Tree d' cs m) out pos =
          (case spec_lines (init repr src specs) [] of
             None \<Rightarrow> Inr (out, pos)
           | Some lines \<Rightarrow>
               if lines \<noteq> []
               then insert_spec_lines (init repr src specs) out pos lines (Tree dd dcs (Meta s e))
               else Inr (out, pos))"
    using info_field_param_wf [of cs acs am "Tree dd dcs (Meta s e)"] a by simp
  then show "\<exists>r. info_field_param (init repr src specs) (Tree d' cs m) out pos = Inr r"
    by (simp add: insert_spec_lines_eq del: insert_spec_lines.simps info_field_param.simps
        split: option.splits)
next
  assume a: "tree_children cs = [Tree ''info_field_args'' acs am, docs] \<and> token_children acs = []
        \<and> [] \<notin> (\<lambda>s. root_argument_name (argument_ref s)) ` set specs"
  then have n: "spec_lines (init repr src specs) [] = None"
    by (simp add: spec_lines_init_None_iff)
  show "info_field_param (init repr src specs) (Tree d' cs m) out pos = Inr (out, pos)"
    using info_field_param_wf [of cs acs am docs] a n by simp
next
  assume a: "tree_children cs = [Tree ''info_field_args'' acs am, Tree dd dcs EmptyMeta]
        \<and> token_children acs = []
        \<and> [] \<in> (\<lambda>s. root_argument_name (argument_ref s)) ` set specs"
  then have "spec_lines (init repr src specs) [] \<noteq> None"
    by (simp add: spec_lines_init_None_iff)
  then obtain ls where ls: "spec_lines (init repr src specs) [] = Some ls"
    by blast
  have ne: "ls \<noteq> []"
    using ls by (rule spec_lines_init_Some)
  have "info_field_param (init repr src specs) (Tree d' cs m) out pos =
          (case spec_lines (init repr src specs) [] of
             None \<Rightarrow> Inr (out, pos)
           | Some lines \<Rightarrow>
               if lines \<noteq> []
               then insert_spec_lines (init repr src specs) out pos lines (Tree dd dcs EmptyMeta)
               else Inr (out, pos))"
    using info_field_param_wf [of cs acs am "Tree dd dcs EmptyMeta"] a by simp
  then show "info_field_param (init repr src specs) (Tree d' cs m) out pos = Inl AttributeError"
    by (simp add: ls ne del: info_field_param.simps)
qed

theorem param_field_key_is_last_token_witness:
  "(let src = '':param x:'' @ [CHR 0x09] @ ''doc'';
        self = init root_argument_name src
                 [ParsedArgumentSpec (RootArgumentRef ''x'')
                    (ParsedShapeSpec [\<lparr>constant = Some 3, variable_name = None,
                       variable_rank = False\<rparr>])];
        args = [Token '' '', Token ''x''];
        docs = Tree ''docs'' [Token ([CHR 0x09] @ ''doc'')] (Meta 9 13);
        cs = [Token ''param'', Tree ''info_field_args'' args (Meta 6 8), docs];
        cs0 = [Token ''param'', Tree ''info_field_args'' [] EmptyMeta, docs];
        specs1 = [ParsedArgumentSpec (RootArgumentRef [])
                    (ParsedShapeSpec [\<lparr>constant = Some 3, variable_name = None,
                       variable_rank = False\<rparr>])];
        self1 = init root_argument_name '':param:'' specs1;
        cs1 = [Token ''param'', Tree ''info_field_args'' [] EmptyMeta,
               Tree ''docs'' [] EmptyMeta]
    in tree_children cs = [Tree ''info_field_args'' args (Meta 6 8), docs]
       \<and> token_children args = ['' '', ''x'']
       \<and> spec_lines self ''x'' = Some [''* **x** has shape [3].'']
       \<and> info_field_param self (Tree ''info_field_param'' cs (Meta 0 13)) [] 0 =
           insert_spec_lines self [] 0 [''* **x** has shape [3].''] docs
       \<and> tree_children cs0 = [Tree ''info_field_args'' [] EmptyMeta, docs]
       \<and> token_children [] = ([] :: string list)
       \<and> spec_lines self [] = None
       \<and> info_field_param self (Tree ''info_field_param'' cs0 (Meta 0 13)) [] 0 = Inr ([], 0)
       \<and> tree_children cs1 =
           [Tree ''info_field_args'' [] EmptyMeta, Tree ''docs'' [] EmptyMeta]
       \<and> [] \<in> (\<lambda>s. root_argument_name (argument_ref s)) ` set specs1
       \<and> spec_lines self1 [] \<noteq> None
       \<and> info_field_param self1 (Tree ''info_field_param'' cs1 (Meta 0 7)) [] 0 =
           Inl AttributeError)"
proof -
  define src where "src = '':param x:'' @ [CHR 0x09] @ ''doc''"
  define specs where "specs = [ParsedArgumentSpec (RootArgumentRef ''x'')
                    (ParsedShapeSpec [\<lparr>constant = Some 3, variable_name = None,
                       variable_rank = False\<rparr>])]"
  define self where "self = init root_argument_name src specs"
  define args where "args = [Token '' '', Token ''x'']"
  define docs where "docs = Tree ''docs'' [Token ([CHR 0x09] @ ''doc'')] (Meta 9 13)"
  define cs where "cs = [Token ''param'', Tree ''info_field_args'' args (Meta 6 8), docs]"
  define cs0 where "cs0 = [Token ''param'', Tree ''info_field_args'' [] EmptyMeta, docs]"
  define specs1 where "specs1 = [ParsedArgumentSpec (RootArgumentRef [])
                    (ParsedShapeSpec [\<lparr>constant = Some 3, variable_name = None,
                       variable_rank = False\<rparr>])]"
  define self1 where "self1 = init root_argument_name '':param:'' specs1"
  define cs1 where "cs1 = [Token ''param'', Tree ''info_field_args'' [] EmptyMeta,
               Tree ''docs'' [] EmptyMeta]"
  note T = param_field_key_is_last_token
  have tc: "tree_children cs = [Tree ''info_field_args'' args (Meta 6 8), docs]"
    by (simp add: cs_def tree_children_def docs_def)
  have tk: "token_children args = ['' '', ''x'']"
    by (simp add: args_def)
  have sx: "spec_lines self ''x'' = Some [''* **x** has shape [3].'']"
    by (simp add: self_def specs_def spec_lines_init argument_spec_to_sphinx_def
        shape_spec_to_sphinx_def str_int_3)
  have p: "info_field_param self (Tree ''info_field_param'' cs (Meta 0 13)) [] 0 =
           insert_spec_lines self [] 0 [''* **x** has shape [3].''] docs"
    using T [THEN conjunct2, THEN conjunct1, rule_format, OF tc,
        of self "''info_field_param''" "Meta 0 13" "[]" 0]
    by (simp add: tk sx)
  have tc0: "tree_children cs0 = [Tree ''info_field_args'' [] EmptyMeta, docs]"
    by (simp add: cs0_def tree_children_def docs_def)
  have tk0: "token_children [] = ([] :: string list)"
    by simp
  have im: "[] \<notin> (\<lambda>s. root_argument_name (argument_ref s)) ` set specs"
    by (simp add: specs_def)
  have s0: "spec_lines self [] = None"
    using T [THEN conjunct2, THEN conjunct2, THEN conjunct1, of root_argument_name src specs] im
    unfolding self_def by (simp add: specs_def)
  have ex: "\<exists>r. info_field_param self (Tree ''info_field_param'' cs0 (Meta 0 13)) [] 0 = Inr r"
    unfolding self_def
    by (rule T [THEN conjunct2, THEN conjunct2, THEN conjunct2, THEN conjunct1, rule_format,
          of cs0 "[]" EmptyMeta "''docs''" "[Token ([CHR 0x09] @ ''doc'')]" 9 13])
      (use tc0 in \<open>simp add: docs_def\<close>)
  have p0: "info_field_param self (Tree ''info_field_param'' cs0 (Meta 0 13)) [] 0 = Inr ([], 0)"
    unfolding self_def
    by (rule T [THEN conjunct2, THEN conjunct2, THEN conjunct2, THEN conjunct2, THEN conjunct1,
          rule_format, of cs0 "[]" EmptyMeta docs])
      (use tc0 im in simp)
  have tc1: "tree_children cs1 =
           [Tree ''info_field_args'' [] EmptyMeta, Tree ''docs'' [] EmptyMeta]"
    by (simp add: cs1_def tree_children_def)
  have im1: "[] \<in> (\<lambda>s. root_argument_name (argument_ref s)) ` set specs1"
    by (simp add: specs1_def)
  have s1: "spec_lines self1 [] \<noteq> None"
    using T [THEN conjunct2, THEN conjunct2, THEN conjunct1,
        of root_argument_name "'':param:''" specs1] im1
    unfolding self1_def by (simp add: specs1_def)
  have p1: "info_field_param self1 (Tree ''info_field_param'' cs1 (Meta 0 7)) [] 0 =
           Inl AttributeError"
    unfolding self1_def
    by (rule T [THEN conjunct2, THEN conjunct2, THEN conjunct2, THEN conjunct2, THEN conjunct2,
          rule_format, of cs1 "[]" EmptyMeta "''docs''" "[]"])
      (use tc1 im1 in simp)
  show ?thesis
    using tc tk sx p tc0 tk0 s0 p0 tc1 im1 s1 p1
    unfolding Let_def self_def specs_def src_def args_def docs_def cs_def cs0_def
      specs1_def self1_def cs1_def
    by (intro conjI)
qed

text \<open>
  C10 as stated fails in its last part: a parameter field with no token child, matched by
  a specification whose root argument name is empty, does not complete when its docs node
  is empty. The grammar engine gives an empty node no positions, and
  \<^verbatim>\<open>_insert_spec_lines\<close> reads \<^verbatim>\<open>docs.meta.start_pos\<close>.
\<close>

theorem param_field_without_positions_counterexample:
  "info_field_args (Tree ''info_field_args'' [] EmptyMeta) = Inr []
   \<and> spec_lines
        (init root_argument_name '':param:''
           [ParsedArgumentSpec (RootArgumentRef [])
              (ParsedShapeSpec [\<lparr>constant = Some 3, variable_name = None,
                 variable_rank = False\<rparr>])]) [] =
       Some [''* **** has shape [3].'']
   \<and> info_field_param
        (init root_argument_name '':param:''
           [ParsedArgumentSpec (RootArgumentRef [])
              (ParsedShapeSpec [\<lparr>constant = Some 3, variable_name = None,
                 variable_rank = False\<rparr>])])
        (Tree ''info_field_param''
           [Token ''param'',
            Tree ''info_field_args'' [] EmptyMeta,
            Tree ''docs'' [] EmptyMeta] (Meta 0 7)) [] 0 = Inl AttributeError
   \<and> visit_str
        (init root_argument_name '':param:''
           [ParsedArgumentSpec (RootArgumentRef [])
              (ParsedShapeSpec [\<lparr>constant = Some 3, variable_name = None,
                 variable_rank = False\<rparr>])])
        (Tree ''docstring''
           [Tree ''docs'' [] EmptyMeta,
            Tree ''info_fields''
              [Tree ''info_field_param''
                 [Token ''param'',
                  Tree ''info_field_args'' [] EmptyMeta,
                  Tree ''docs'' [] EmptyMeta] (Meta 0 7)]
              (Meta 0 7)] (Meta 0 7)) = Inl AttributeError"
  by code_simp

section \<open>What the rewrite keeps\<close>

lemma rstrip_decomp: "\<exists>w. x = rstrip x @ w \<and> list_all isspace w"
proof -
  have "rev x = takeWhile isspace (rev x) @ dropWhile isspace (rev x)" by simp
  then have "x = rev (dropWhile isspace (rev x)) @ rev (takeWhile isspace (rev x))"
    by (metis rev_append rev_rev_ident)
  moreover have "list_all isspace (rev (takeWhile isspace (rev x)))"
    by (simp add: list_all_iff) (metis set_takeWhileD)
  ultimately show ?thesis unfolding rstrip_def by blast
qed

lemma rstrip_take: "rstrip x = take (length (rstrip x)) x"
  using rstrip_decomp [of x] by (metis append_eq_conv_conj)

lemma length_rstrip_le: "length (rstrip x) \<le> length x"
  using rstrip_decomp [of x] by (metis length_append le_add1)

lemma rstrip_last: "rstrip x = [] \<or> \<not> isspace (last (rstrip x))"
proof (cases "dropWhile isspace (rev x)")
  case Nil
  then show ?thesis by (simp add: rstrip_def)
next
  case (Cons c cs)
  then have "\<not> isspace c" using hd_dropWhile [of isspace "rev x"] by simp
  then show ?thesis by (simp add: rstrip_def Cons)
qed

lemma lstrip_hd: "lstrip x = [] \<or> \<not> isspace (hd (lstrip x))"
  unfolding lstrip_def using hd_dropWhile [of isspace x] by blast

lemma lstrip_decomp: "x = takeWhile isspace x @ lstrip x \<and> list_all isspace (takeWhile isspace x)"
  by (simp add: lstrip_def list_all_iff) (metis set_takeWhileD)

lemma slice_split:
  assumes "s \<le> e"
  shows "slice (source self) pos e = rstrip (slice (source self) pos s) @ docs_text self pos s e"
proof -
  define src where "src = source self"
  define L where "L = rstrip (slice src pos s)"
  define n where "n = length L"
  have n1: "n \<le> s - pos"
    using length_rstrip_le [of "slice src pos s"] by (simp add: n_def L_def slice_def)
  then have n2: "n \<le> e - pos" using assms by simp
  have "L = take n (slice src pos s)" unfolding n_def L_def by (rule rstrip_take)
  then have L: "L = take n (drop pos src)" using n1 by (simp add: slice_def min_def)
  have "e - pos = n + (e - pos - n)" using n2 by arith
  then have "take (e - pos) (drop pos src) = take (n + (e - pos - n)) (drop pos src)"
    by (rule arg_cong)
  also have "\<dots> = take n (drop pos src) @ take (e - pos - n) (drop n (drop pos src))"
    by (rule take_add)
  also have "\<dots> = L @ take (e - (pos + n)) (drop (pos + n) src)"
    by (simp add: L add.commute)
  finally show ?thesis
    by (simp add: slice_def docs_text_def L_def n_def src_def)
qed

lemma take_slice: "pos \<le> e \<Longrightarrow> take e src = take pos src @ slice src pos e"
  using take_add [of pos "e - pos" src] by (simp add: slice_def)

lemma concat_indent_lines:
  "concat (concat (map (\<lambda>l. [ind, l]) lines)) = concat (map (\<lambda>l. ind @ l) lines)"
  by (induction lines) simp_all

lemma insert_spec_lines_segment:
  assumes "pos \<le> e" and "s \<le> e" and g_def: "g = field_segment self pos k lines s e"
  shows "\<exists>out'. insert_spec_lines self out pos lines (Tree d cs (Meta s e)) = Inr (out', e)
     \<and> concat out' = concat out @ seg_keep g @ inserted_text (seg_indent g) lines @ seg_body g
     \<and> take e (source self) = take pos (source self) @ seg_keep g @ seg_run g @ seg_body g"
proof -
  define dt where "dt = docs_text self pos s e"
  define n where "n = spec_line_indent self dt"
  define L where "L = rstrip (slice (source self) pos s)"
  define out' where "out' = out @ [L]
            @ concat (map (\<lambda>l. [CHR 0x0A # replicate n (CHR 0x20), l]) lines)
            @ [[CHR 0x0A], CHR 0x0A # replicate n (CHR 0x20), lstrip dt]"
  have gk: "seg_keep g = L" "seg_run g = takeWhile isspace dt" "seg_indent g = n"
    "seg_body g = lstrip dt"
    by (simp_all add: g_def field_segment_def L_def dt_def n_def)
  have r: "insert_spec_lines self out pos lines (Tree d cs (Meta s e)) = Inr (out', e)"
    unfolding out'_def n_def dt_def L_def by (rule insert_spec_lines_eq)
  have c: "concat out' = concat out @ L @ inserted_text n lines @ lstrip dt"
    by (simp add: out'_def inserted_text_def concat_indent_lines)
  have "slice (source self) pos e = L @ dt"
    using slice_split [OF assms(2), of self pos] by (simp add: L_def dt_def)
  then have "take e (source self) = take pos (source self) @ L @ takeWhile isspace dt @ lstrip dt"
    using take_slice [OF assms(1), of "source self"] lstrip_decomp [of dt] by simp
  then show ?thesis using r c unfolding gk by blast
qed

lemma matched_field_lines:
  assumes "field_key f = Some k" and "spec_lines self k = Some lines"
  shows "field_key_text f = k" and "field_lines self f = lines"
  using assms by (simp_all add: field_key_text_def field_lines_def)

lemma original_text_Cons:
  "original_text (g # segs) rest = seg_keep g @ seg_run g @ seg_body g @ original_text segs rest"
  by (simp add: original_text_def)

lemma rewritten_text_Cons:
  "rewritten_text (g # segs) rest =
     seg_keep g @ inserted_text (seg_indent g) (seg_lines g) @ seg_body g
       @ rewritten_text segs rest"
  by (simp add: rewritten_text_def)

lemma spans_ordered_matched:
  assumes "spans_ordered self pos (f # fs)" and "matched self f" and "field_docs f = Some docs"
  obtains d cs s e where "docs = Tree d cs (Meta s e)" and "pos \<le> s" and "s \<le> e"
    and "spans_ordered self e fs"
  using assms by (auto split: node.splits meta.splits)

lemma info_fields_loop_exact:
  assumes "list_all wf_info_field fs" and "spans_ordered self pos fs"
  shows "\<exists>out'. info_fields_loop self fs out pos = Inr (out', cursor_after self pos fs)
     \<and> concat out' = concat out @ rewritten_text (field_segments self pos fs) []
     \<and> take (cursor_after self pos fs) (source self) =
         take pos (source self) @ original_text (field_segments self pos fs) []"
  using assms
proof (induction fs arbitrary: out pos)
  case Nil
  then show ?case by (simp add: original_text_def rewritten_text_def)
next
  case (Cons f fs)
  have wf: "wf_info_field f" and wfs: "list_all wf_info_field fs" using Cons.prems(1) by simp_all
  show ?case
  proof (cases "matched self f")
    case False
    then have v: "visit_pos self f out pos = Inr (out, pos)"
      using wf by (simp add: visit_pos_unmatched)
    have so: "spans_ordered self pos fs" using Cons.prems(2) False by simp
    show ?thesis
      using Cons.IH [OF wfs so, of out] v False by simp
  next
    case True
    obtain k lines docs where
      k: "field_key f = Some k" "spec_lines self k = Some lines" "lines \<noteq> []"
      and d: "field_docs f = Some docs"
      and v: "visit_pos self f out pos = insert_spec_lines self out pos lines docs"
      using visit_pos_matched [OF wf True, of out pos] by blast
    obtain dn dcs s e where
      docs: "docs = Tree dn dcs (Meta s e)" and le: "pos \<le> s" "s \<le> e"
      and so: "spans_ordered self e fs"
      using spans_ordered_matched [OF Cons.prems(2) True d] by blast
    have pe: "pos \<le> e" using le by simp
    define g where "g = field_segment self pos k lines s e"
    have gl: "seg_lines g = lines" by (simp add: g_def field_segment_def)
    obtain out1 where
      i: "insert_spec_lines self out pos lines (Tree dn dcs (Meta s e)) = Inr (out1, e)"
      and c: "concat out1 =
          concat out @ seg_keep g @ inserted_text (seg_indent g) lines @ seg_body g"
      and t: "take e (source self) =
          take pos (source self) @ seg_keep g @ seg_run g @ seg_body g"
      using insert_spec_lines_segment [OF pe le(2) g_def, of out dn dcs] by blast
    have segs: "field_segments self pos (f # fs) = g # field_segments self e fs"
      using True d docs matched_field_lines [OF k(1) k(2)] by (simp add: g_def)
    have cur: "cursor_after self pos (f # fs) = cursor_after self e fs"
      using True d docs by simp
    obtain out' where
      l: "info_fields_loop self fs out1 e = Inr (out', cursor_after self e fs)"
      and c': "concat out' = concat out1 @ rewritten_text (field_segments self e fs) []"
      and t': "take (cursor_after self e fs) (source self) =
          take e (source self) @ original_text (field_segments self e fs) []"
      using Cons.IH [OF wfs so, of out1] by blast
    have step: "info_fields_loop self (f # fs) out pos = info_fields_loop self fs out1 e"
      using v i docs by simp
    show ?thesis
      unfolding step segs cur
      using l c' t' c t by (simp add: original_text_Cons rewritten_text_Cons gl)
  qed
qed

lemma field_segments_ok:
  assumes "list_all wf_info_field fs" and "spans_ordered self pos fs"
  shows "list_all (segment_ok self) (field_segments self pos fs)"
  using assms
proof (induction fs arbitrary: pos)
  case Nil
  then show ?case by simp
next
  case (Cons f fs)
  have wf: "wf_info_field f" and wfs: "list_all wf_info_field fs" using Cons.prems(1) by simp_all
  show ?case
  proof (cases "matched self f")
    case False
    then show ?thesis using Cons.IH [OF wfs, of pos] Cons.prems(2) by simp
  next
    case True
    obtain k lines docs where
      k: "field_key f = Some k" "spec_lines self k = Some lines" "lines \<noteq> []"
      and d: "field_docs f = Some docs"
      using visit_pos_matched [OF wf True, of "[]" 0] by blast
    obtain dn dcs s e where
      docs: "docs = Tree dn dcs (Meta s e)" and le: "pos \<le> s" "s \<le> e"
      and so: "spans_ordered self e fs"
      using spans_ordered_matched [OF Cons.prems(2) True d] by blast
    define g where "g = field_segment self pos k lines s e"
    have segs: "field_segments self pos (f # fs) = g # field_segments self e fs"
      using True d docs matched_field_lines [OF k(1) k(2)] by (simp add: g_def)
    have run: "list_all isspace (takeWhile isspace (docs_text self pos s e))"
      using lstrip_decomp [of "docs_text self pos s e"] by (rule conjunct2)
    have g: "seg_keep g = rstrip (slice (source self) pos s)"
      "seg_run g = takeWhile isspace (docs_text self pos s e)"
      "seg_body g = lstrip (docs_text self pos s e)"
      "seg_key g = k" "seg_lines g = lines"
      by (simp_all add: g_def field_segment_def)
    have "segment_ok self g"
      unfolding segment_ok_def g
    proof (intro conjI)
      show "list_all isspace (takeWhile isspace (docs_text self pos s e))" by (rule run)
      show "rstrip (slice (source self) pos s) = []
          \<or> \<not> isspace (last (rstrip (slice (source self) pos s)))"
        by (rule rstrip_last)
      show "lstrip (docs_text self pos s e) = []
          \<or> \<not> isspace (hd (lstrip (docs_text self pos s e)))"
        by (rule lstrip_hd)
      show "lines \<noteq> []" by (rule k(3))
      show "spec_lines self k = Some lines" by (rule k(2))
    qed
    then show ?thesis unfolding segs using Cons.IH [OF wfs so] by simp
  qed
qed

lemma field_segments_keys:
  assumes "list_all wf_info_field fs" and "spans_ordered self pos fs"
  shows "map (\<lambda>g. Some (seg_key g)) (field_segments self pos fs) =
     map field_key (filter (matched self) fs)"
  using assms
proof (induction fs arbitrary: pos)
  case Nil
  then show ?case by simp
next
  case (Cons f fs)
  have wf: "wf_info_field f" and wfs: "list_all wf_info_field fs" using Cons.prems(1) by simp_all
  show ?case
  proof (cases "matched self f")
    case False
    then show ?thesis using Cons.IH [OF wfs, of pos] Cons.prems(2) by simp
  next
    case True
    obtain k lines docs where
      k: "field_key f = Some k" "spec_lines self k = Some lines"
      and d: "field_docs f = Some docs"
      using visit_pos_matched [OF wf True, of "[]" 0] by blast
    obtain dn dcs s e where
      docs: "docs = Tree dn dcs (Meta s e)" and le: "pos \<le> s" "s \<le> e"
      and so: "spans_ordered self e fs"
      using spans_ordered_matched [OF Cons.prems(2) True d] by blast
    have segs: "field_segments self pos (f # fs) =
        field_segment self pos k lines s e # field_segments self e fs"
      using True d docs matched_field_lines [OF k(1) k(2)] by simp
    show ?thesis
      unfolding segs using Cons.IH [OF wfs so] True k by (simp add: field_segment_def)
  qed
qed

lemma subseq_segments:
  "list_all (segment_ok self) segs \<Longrightarrow>
   subseq (filter (\<lambda>c. \<not> isspace c) (original_text segs rest)) (rewritten_text segs rest)"
proof (induction segs)
  case Nil
  then show ?case by (simp add: original_text_def rewritten_text_def)
next
  case (Cons g segs)
  have w: "filter (\<lambda>c. \<not> isspace c) (seg_run g) = []"
    using Cons.prems by (simp add: segment_ok_def list_all_iff filter_empty_conv)
  have IH: "subseq (filter (\<lambda>c. \<not> isspace c) (original_text segs rest))
      (rewritten_text segs rest)"
    using Cons by simp
  have b: "subseq (filter (\<lambda>c. \<not> isspace c) (seg_body g)
          @ filter (\<lambda>c. \<not> isspace c) (original_text segs rest))
        (seg_body g @ rewritten_text segs rest)"
    by (intro list_emb_append_mono subseq_filter_left IH)
  have "subseq (filter (\<lambda>c. \<not> isspace c) (seg_keep g)
          @ (filter (\<lambda>c. \<not> isspace c) (seg_body g)
          @ filter (\<lambda>c. \<not> isspace c) (original_text segs rest)))
        (seg_keep g @ (inserted_text (seg_indent g) (seg_lines g)
          @ (seg_body g @ rewritten_text segs rest)))"
    by (intro list_emb_append_mono subseq_filter_left list_emb_append2 b)
  then show ?case by (simp add: original_text_Cons rewritten_text_Cons w)
qed

lemma field_docs_is_Tree:
  assumes "wf_info_field f" and "field_docs f = Some docs"
  shows "is_Tree docs"
  using assms(1)
proof (cases f rule: wf_info_field_cases)
  case (param cs m acs am ds)
  then have "docs = ds" using assms(2) by simp
  moreover have "ds \<in> set (tree_children cs)" using param(2) by simp
  ultimately show ?thesis by (simp add: tree_children_def)
next
  case (returns cs m ds)
  then have "docs = ds" using assms(2) by simp
  moreover have "ds \<in> set (tree_children cs)" using returns(2) by simp
  ultimately show ?thesis by (simp add: tree_children_def)
next
  case (other cs m)
  then show ?thesis using assms(2) by simp
qed

lemma visit_pos_positioned:
  assumes "wf_info_field f" and "\<not> unpositioned self f"
  shows "\<exists>r. visit_pos self f out pos = Inr r"
proof (cases "matched self f")
  case False
  then show ?thesis using assms(1) by (simp add: visit_pos_unmatched)
next
  case True
  obtain k lines docs where
    d: "field_docs f = Some docs"
    and v: "visit_pos self f out pos = insert_spec_lines self out pos lines docs"
    using visit_pos_matched [OF assms(1) True, of out pos] by blast
  obtain dn dcs m where docs: "docs = Tree dn dcs m"
    using field_docs_is_Tree [OF assms(1) d] by (cases docs) simp_all
  obtain s e where m: "m = Meta s e"
    using assms(2) True d docs by (cases m) (simp_all add: unpositioned_def)
  show ?thesis
    unfolding v docs m by (simp add: insert_spec_lines_eq del: insert_spec_lines.simps)
qed

lemma visit_pos_unpositioned:
  assumes "wf_info_field f" and "unpositioned self f"
  shows "visit_pos self f out pos = Inl AttributeError"
proof -
  have m: "matched self f" using assms(2) by (simp add: unpositioned_def)
  obtain k lines docs where
    d: "field_docs f = Some docs"
    and v: "visit_pos self f out pos = insert_spec_lines self out pos lines docs"
    using visit_pos_matched [OF assms(1) m, of out pos] by blast
  obtain dn dcs where "docs = Tree dn dcs EmptyMeta"
    using assms(2) d by (auto simp: unpositioned_def split: node.splits meta.splits)
  then show ?thesis unfolding v by simp
qed

lemma info_fields_loop_unpositioned:
  "list_all wf_info_field fs \<Longrightarrow> list_ex (unpositioned self) fs \<Longrightarrow>
   info_fields_loop self fs out pos = Inl AttributeError"
proof (induction fs arbitrary: out pos)
  case Nil
  then show ?case by simp
next
  case (Cons f fs)
  have wf: "wf_info_field f" and wfs: "list_all wf_info_field fs" using Cons.prems(1) by simp_all
  show ?case
  proof (cases "unpositioned self f")
    case True
    then show ?thesis using visit_pos_unpositioned [OF wf True, of out pos] by simp
  next
    case False
    then obtain out' pos' where v: "visit_pos self f out pos = Inr (out', pos')"
      using visit_pos_positioned [OF wf False, of out pos] by (metis surj_pair)
    have "list_ex (unpositioned self) fs" using Cons.prems(2) False by simp
    then show ?thesis using Cons.IH [OF wfs, of out' pos'] v by simp
  qed
qed

text \<open>
  C2 (amended). For a tree of the grammar's shape: when every matched field's docs node
  has its positions and these spans are ordered, the rewrite succeeds, and its result is
  the original text in which, for each matched field in the order of the fields, the
  whole whitespace run between the field's header and its docs text is replaced by the
  inserted text of the field (every spec line of the field's key after a line feed and
  the indentation, then an empty line and the indentation); everything else is kept, so
  every character that is not whitespace appears unchanged and in order in the result.
  When a matched field's docs node has no positions, the rewrite raises
  \<^verbatim>\<open>AttributeError\<close>.
\<close>

theorem rewrite_replaces_whitespace_before_matched_docs:
  assumes "wf_docstring_tree t"
  shows "(spans_ordered self 0 (fields_of t) \<longrightarrow>
       visit_str self t =
         Inr (rewritten_text (field_segments self 0 (fields_of t))
                (slice_from (source self) (cursor_after self 0 (fields_of t))))
       \<and> source self =
           original_text (field_segments self 0 (fields_of t))
             (slice_from (source self) (cursor_after self 0 (fields_of t)))
       \<and> list_all (segment_ok self) (field_segments self 0 (fields_of t))
       \<and> map (\<lambda>g. Some (seg_key g)) (field_segments self 0 (fields_of t)) =
           map field_key (filter (matched self) (fields_of t))
       \<and> subseq (filter (\<lambda>c. \<not> isspace c) (source self))
           (rewritten_text (field_segments self 0 (fields_of t))
              (slice_from (source self) (cursor_after self 0 (fields_of t)))))
     \<and> (list_ex (unpositioned self) (fields_of t) \<longrightarrow> visit_str self t = Inl AttributeError)"
proof (intro conjI impI)
  note wfs = fields_of_wf [OF assms]
  define segs where "segs = field_segments self 0 (fields_of t)"
  define rest where "rest = slice_from (source self) (cursor_after self 0 (fields_of t))"
  {
    assume so: "spans_ordered self 0 (fields_of t)"
    obtain out' where
      l: "info_fields_loop self (fields_of t) [] 0 = Inr (out', cursor_after self 0 (fields_of t))"
      and c: "concat out' = rewritten_text segs []"
      and o: "take (cursor_after self 0 (fields_of t)) (source self) = original_text segs []"
      using info_fields_loop_exact [OF wfs so, of "[]"] unfolding segs_def by auto
    show v: "visit_str self t = Inr (rewritten_text segs rest)"
      using docstring_wf [OF assms, of self] l c
      by (simp add: rest_def rewritten_text_def)
    have "source self = take (cursor_after self 0 (fields_of t)) (source self) @ rest"
      by (simp add: rest_def slice_from_def)
    then show s: "source self = original_text segs rest"
      unfolding o by (simp add: original_text_def)
    show ok: "list_all (segment_ok self) segs"
      unfolding segs_def by (rule field_segments_ok [OF wfs so])
    show "map (\<lambda>g. Some (seg_key g)) segs = map field_key (filter (matched self) (fields_of t))"
      unfolding segs_def by (rule field_segments_keys [OF wfs so])
    have "subseq (filter (\<lambda>c. \<not> isspace c) (original_text segs rest)) (rewritten_text segs rest)"
      using ok by (rule subseq_segments)
    then show "subseq (filter (\<lambda>c. \<not> isspace c) (source self)) (rewritten_text segs rest)"
      using s by simp
  }
  {
    assume "list_ex (unpositioned self) (fields_of t)"
    then have "info_fields_loop self (fields_of t) [] 0 = Inl AttributeError"
      by (rule info_fields_loop_unpositioned [OF wfs])
    then show "visit_str self t = Inl AttributeError"
      using docstring_wf [OF assms, of self] by simp
  }
qed

theorem rewrite_replaces_whitespace_before_matched_docs_witness:
  "(let src = '':param x:'' @ [CHR 0x09] @ ''doc'';
        specs = [ParsedArgumentSpec (RootArgumentRef ''x'')
                   (ParsedShapeSpec [\<lparr>constant = Some 3, variable_name = None,
                      variable_rank = False\<rparr>])];
        self = init root_argument_name src specs;
        t = Tree ''docstring''
              [Tree ''docs'' [] EmptyMeta,
               Tree ''info_fields''
                 [Tree ''info_field_param''
                    [Token ''param'',
                     Tree ''info_field_args'' [Token '' '', Token ''x''] (Meta 6 8),
                     Tree ''docs'' [Token ([CHR 0x09] @ ''doc'')] (Meta 9 13)] (Meta 0 13)]
                 (Meta 0 13)] (Meta 0 13);
        result = '':param x:'' @ [CHR 0x0A] @ ''    * **x** has shape [3].''
                   @ [CHR 0x0A, CHR 0x0A] @ ''    doc'';
        src0 = '':param x:'';
        self0 = init root_argument_name src0 specs;
        t0 = Tree ''docstring''
               [Tree ''docs'' [] EmptyMeta,
                Tree ''info_fields''
                  [Tree ''info_field_param''
                     [Token ''param'',
                      Tree ''info_field_args'' [Token '' '', Token ''x''] (Meta 6 8),
                      Tree ''docs'' [] EmptyMeta] (Meta 0 9)]
                  (Meta 0 9)] (Meta 0 9)
    in wf_docstring_tree t
       \<and> spans_ordered self 0 (fields_of t)
       \<and> field_segments self 0 (fields_of t) =
           [\<lparr>seg_keep = '':param x:'', seg_run = [CHR 0x09], seg_indent = 4, seg_key = ''x'',
             seg_lines = [''* **x** has shape [3].''], seg_body = ''doc''\<rparr>]
       \<and> visit_str self t = Inr result
       \<and> subseq (filter (\<lambda>c. \<not> isspace c) src) result
       \<and> wf_docstring_tree t0
       \<and> list_ex (unpositioned self0) (fields_of t0)
       \<and> visit_str self0 t0 = Inl AttributeError)"
proof -
  define src where "src = '':param x:'' @ [CHR 0x09] @ ''doc''"
  define specs where "specs = [ParsedArgumentSpec (RootArgumentRef ''x'')
                   (ParsedShapeSpec [\<lparr>constant = Some 3, variable_name = None,
                      variable_rank = False\<rparr>])]"
  define self where "self = init root_argument_name src specs"
  define t where "t = Tree ''docstring''
              [Tree ''docs'' [] EmptyMeta,
               Tree ''info_fields''
                 [Tree ''info_field_param''
                    [Token ''param'',
                     Tree ''info_field_args'' [Token '' '', Token ''x''] (Meta 6 8),
                     Tree ''docs'' [Token ([CHR 0x09] @ ''doc'')] (Meta 9 13)] (Meta 0 13)]
                 (Meta 0 13)] (Meta 0 13)"
  define result where "result = '':param x:'' @ [CHR 0x0A] @ ''    * **x** has shape [3].''
                   @ [CHR 0x0A, CHR 0x0A] @ ''    doc''"
  define src0 where "src0 = '':param x:''"
  define self0 where "self0 = init root_argument_name src0 specs"
  define t0 where "t0 = Tree ''docstring''
               [Tree ''docs'' [] EmptyMeta,
                Tree ''info_fields''
                  [Tree ''info_field_param''
                     [Token ''param'',
                      Tree ''info_field_args'' [Token '' '', Token ''x''] (Meta 6 8),
                      Tree ''docs'' [] EmptyMeta] (Meta 0 9)]
                  (Meta 0 9)] (Meta 0 9)"
  note T = rewrite_replaces_whitespace_before_matched_docs
  have wf: "wf_docstring_tree t"
    unfolding t_def by code_simp
  have so: "spans_ordered self 0 (fields_of t)"
    unfolding t_def self_def src_def specs_def by code_simp
  have segs: "field_segments self 0 (fields_of t) =
           [\<lparr>seg_keep = '':param x:'', seg_run = [CHR 0x09], seg_indent = 4, seg_key = ''x'',
             seg_lines = [''* **x** has shape [3].''], seg_body = ''doc''\<rparr>]"
    unfolding t_def self_def src_def specs_def by code_simp
  have rw: "rewritten_text (field_segments self 0 (fields_of t))
      (slice_from (source self) (cursor_after self 0 (fields_of t))) = result"
    unfolding t_def self_def src_def specs_def result_def by code_simp
  have sr: "source self = src"
    by (simp add: self_def init_def)
  note C = T [OF wf, of self, THEN conjunct1, rule_format, OF so]
  have ev: "visit_str self t = Inr result"
    using C [THEN conjunct1] unfolding rw .
  have sub: "subseq (filter (\<lambda>c. \<not> isspace c) src) result"
    using C [THEN conjunct2, THEN conjunct2, THEN conjunct2, THEN conjunct2, unfolded rw]
    unfolding sr .
  have wf0: "wf_docstring_tree t0"
    unfolding t0_def by code_simp
  have un: "list_ex (unpositioned self0) (fields_of t0)"
    unfolding t0_def self0_def src0_def specs_def by code_simp
  have ev0: "visit_str self0 t0 = Inl AttributeError"
    by (rule T [OF wf0, of self0, THEN conjunct2, rule_format, OF un])
  show ?thesis
    using wf so segs ev sub wf0 un ev0
    unfolding Let_def src_def specs_def self_def t_def result_def src0_def self0_def t0_def
    by (intro conjI)
qed

text \<open>
  C2 as stated fails: with a tab between the header of a matched parameter field and its
  docs text, the tab of the original text appears nowhere in the result, so the original
  is not a subsequence of the result.
\<close>

theorem rewrite_drops_whitespace_counterexample:
  "visit_str
     (init root_argument_name ('':param x:'' @ [CHR 0x09] @ ''doc'')
        [ParsedArgumentSpec (RootArgumentRef ''x'')
           (ParsedShapeSpec [\<lparr>constant = Some 3, variable_name = None, variable_rank = False\<rparr>])])
     (Tree ''docstring''
        [Tree ''docs'' [] EmptyMeta,
         Tree ''info_fields''
           [Tree ''info_field_param''
              [Token ''param'',
               Tree ''info_field_args'' [Token '' '', Token ''x''] (Meta 6 8),
               Tree ''docs'' [Token ([CHR 0x09] @ ''doc'')] (Meta 9 13)] (Meta 0 13)]
           (Meta 0 13)] (Meta 0 13)) =
     Inr ('':param x:'' @ [CHR 0x0A] @ ''    * **x** has shape [3].'' @ [CHR 0x0A, CHR 0x0A]
            @ ''    doc'')
   \<and> \<not> subseq ('':param x:'' @ [CHR 0x09] @ ''doc'')
         ('':param x:'' @ [CHR 0x0A] @ ''    * **x** has shape [3].'' @ [CHR 0x0A, CHR 0x0A]
            @ ''    doc'')"
proof (intro conjI)
  show "visit_str
     (init root_argument_name ('':param x:'' @ [CHR 0x09] @ ''doc'')
        [ParsedArgumentSpec (RootArgumentRef ''x'')
           (ParsedShapeSpec [\<lparr>constant = Some 3, variable_name = None, variable_rank = False\<rparr>])])
     (Tree ''docstring''
        [Tree ''docs'' [] EmptyMeta,
         Tree ''info_fields''
           [Tree ''info_field_param''
              [Token ''param'',
               Tree ''info_field_args'' [Token '' '', Token ''x''] (Meta 6 8),
               Tree ''docs'' [Token ([CHR 0x09] @ ''doc'')] (Meta 9 13)] (Meta 0 13)]
           (Meta 0 13)] (Meta 0 13)) =
     Inr ('':param x:'' @ [CHR 0x0A] @ ''    * **x** has shape [3].'' @ [CHR 0x0A, CHR 0x0A]
            @ ''    doc'')"
    by code_simp
  show "\<not> subseq ('':param x:'' @ [CHR 0x09] @ ''doc'')
         ('':param x:'' @ [CHR 0x0A] @ ''    * **x** has shape [3].'' @ [CHR 0x0A, CHR 0x0A]
            @ ''    doc'')"
  proof
    assume a: "subseq ('':param x:'' @ [CHR 0x09] @ ''doc'')
         ('':param x:'' @ [CHR 0x0A] @ ''    * **x** has shape [3].'' @ [CHR 0x0A, CHR 0x0A]
            @ ''    doc'')"
    have m: "CHR 0x09 \<in> set ('':param x:'' @ [CHR 0x09] @ ''doc'')" by simp
    obtain y where y: "y \<in> set ('':param x:'' @ [CHR 0x0A] @ ''    * **x** has shape [3].''
        @ [CHR 0x0A, CHR 0x0A] @ ''    doc'')" and e: "CHR 0x09 = y"
      using list_emb_set [OF a m] by blast
    show False using y unfolding e [symmetric] by simp
  qed
qed

end
